theory Spec2Isabelle
  imports Complex_Main "HOL-Library.AList"
begin

section \<open>JavaScript strings\<close>

text \<open>
  Strings are \<^typ>\<open>string\<close>: a character is a code unit below 256, read as its Unicode
  code point (the header names, urls and frame fields of this program are ASCII).
  \<open>toLowerCase\<close> maps the letters A..Z to a..z, the letters U+00C0..U+00DE (but the
  multiplication sign U+00D7) to U+00E0..U+00FE, and leaves every other character.
\<close>

definition upperChars :: string where
  "upperChars =
     ''ABCDEFGHIJKLMNOPQRSTUVWXYZ'' @
     [CHR 0xC0, CHR 0xC1, CHR 0xC2, CHR 0xC3, CHR 0xC4, CHR 0xC5, CHR 0xC6, CHR 0xC7,
      CHR 0xC8, CHR 0xC9, CHR 0xCA, CHR 0xCB, CHR 0xCC, CHR 0xCD, CHR 0xCE, CHR 0xCF,
      CHR 0xD0, CHR 0xD1, CHR 0xD2, CHR 0xD3, CHR 0xD4, CHR 0xD5, CHR 0xD6,
      CHR 0xD8, CHR 0xD9, CHR 0xDA, CHR 0xDB, CHR 0xDC, CHR 0xDD, CHR 0xDE]"

definition lowerChars :: string where
  "lowerChars =
     ''abcdefghijklmnopqrstuvwxyz'' @
     [CHR 0xE0, CHR 0xE1, CHR 0xE2, CHR 0xE3, CHR 0xE4, CHR 0xE5, CHR 0xE6, CHR 0xE7,
      CHR 0xE8, CHR 0xE9, CHR 0xEA, CHR 0xEB, CHR 0xEC, CHR 0xED, CHR 0xEE, CHR 0xEF,
      CHR 0xF0, CHR 0xF1, CHR 0xF2, CHR 0xF3, CHR 0xF4, CHR 0xF5, CHR 0xF6,
      CHR 0xF8, CHR 0xF9, CHR 0xFA, CHR 0xFB, CHR 0xFC, CHR 0xFD, CHR 0xFE]"

definition lowerChar :: "char \<Rightarrow> char" where
  "lowerChar c =
     (case map_of (zip upperChars lowerChars) c of
        Some d \<Rightarrow> d
      | None \<Rightarrow> c)"

definition toLowerCase :: "string \<Rightarrow> string" where
  "toLowerCase s = map lowerChar s"

text \<open>\<open>s.startsWith(p)\<close>.\<close>

fun startsWith :: "string \<Rightarrow> string \<Rightarrow> bool" where
  "startsWith s [] = True"
| "startsWith [] (p # ps) = False"
| "startsWith (c # cs) (p # ps) = (c = p \<and> startsWith cs ps)"

text \<open>
  \<open>s.trim()\<close> removes white space and line terminators at both ends; below 256 these
  are tab, line feed, vertical tab, form feed, carriage return, space and the no-break
  space U+00A0.
\<close>

definition isSpace :: "char \<Rightarrow> bool" where
  "isSpace c =
     (c \<in> set [CHR 0x09, CHR 0x0A, CHR 0x0B, CHR 0x0C, CHR 0x0D, CHR 0x20, CHR 0xA0])"



section \<open>The edge: header sanitization (server/tunnel.js)\<close>

text \<open>
  A header object is the list of its own entries in insertion order, as \<open>Object.entries\<close>
  yields them; the keys of an object are distinct. \<open>sanitized[key] = value\<close> is
  \<^const>\<open>AList.update\<close>. The keys are ordinary property names, as the HTTP parser
  produces them (a key \<open>__proto__\<close>, which an assignment treats in its own way, is
  outside the model).
\<close>

type_synonym 'v headers = "(string \<times> 'v) list"

definition hopByHop :: "string list" where
  "hopByHop =
     [''connection'', ''keep-alive'', ''proxy-authenticate'', ''proxy-authorization'',
      ''te'', ''trailers'', ''transfer-encoding'', ''upgrade'']"

fun sanitizeLoop :: "'v headers \<Rightarrow> 'v headers \<Rightarrow> 'v headers" where
  "sanitizeLoop [] sanitized = sanitized"
| "sanitizeLoop ((key, val) # rest) sanitized =
     (if toLowerCase key \<notin> set hopByHop
      then sanitizeLoop rest (AList.update key val sanitized)
      else sanitizeLoop rest sanitized)"

definition sanitizeHeaders :: "'v headers \<Rightarrow> 'v headers" where
  "sanitizeHeaders hdrs = sanitizeLoop hdrs []"

section \<open>Frames of the control channel\<close>

text \<open>
  A frame is one JSON object. A field that is absent (or \<open>null\<close>) is \<open>None\<close>; the
  flags \<open>hasBody\<close> and \<open>streaming\<close> are kept by their truthiness, the only way the code
  reads them; \<open>type\<close> is the empty string when absent. The fields \<open>data\<close> and \<open>body\<close>
  hold base64 text. \<open>Malformed\<close> is a message that \<open>JSON.parse\<close> rejects.
\<close>

record message =
  m_type :: string
  m_id :: "string option"
  m_port :: "nat option"
  m_method :: "string option"
  m_url :: "string option"
  m_headers :: "string headers option"
  m_hasBody :: bool
  m_body :: "string option"
  m_data :: "string option"
  m_direction :: "string option"
  m_status :: "nat option"
  m_streaming :: bool
  m_message :: "string option"

definition emptyMessage :: message where
  "emptyMessage =
     \<lparr>m_type = [], m_id = None, m_port = None, m_method = None, m_url = None,
      m_headers = None, m_hasBody = False, m_body = None, m_data = None,
      m_direction = None, m_status = None, m_streaming = False, m_message = None\<rparr>"

datatype wire = Malformed | Frame message

text \<open>\<open>if (x)\<close> on an optional string: present and not empty.\<close>

fun truthy :: "string option \<Rightarrow> bool" where
  "truthy None = False"
| "truthy (Some v) = (v \<noteq> [])"

text \<open>\<open>n || d\<close> on an optional number: \<open>d\<close> when absent or zero.\<close>

fun orDefault :: "nat option \<Rightarrow> nat \<Rightarrow> nat" where
  "orDefault None d = d"
| "orDefault (Some n) d = (if n = 0 then d else n)"

datatype jserror =
  TypeError | SyntaxError | RangeError | ERR_HTTP_HEADERS_SENT | WebSocketNotOpen
  | MaxAttemptsReached

section \<open>The public response object\<close>

text \<open>
  The response of the HTTP framework, as far as the tunnel manager uses it:
  \<open>status\<close> assigns the status code; \<open>setHeader\<close> and \<open>json\<close> throw once the
  head has been sent; \<open>write\<close> sends the head with the first body bytes; \<open>json\<close> sends
  the object as the whole body and finishes the response; \<open>end\<close> finishes it. Writing to
  or ending a finished response changes nothing. Header names are stored in lower case;
  the charset that \<open>json\<close> appends to the content type is left out.
\<close>

type_synonym json = "(string \<times> string) list"

datatype payload = Bytes string | JsonBody json

record response =
  statusCode :: nat
  resHeaders :: "string headers"
  headersSent :: bool
  resBody :: "payload list"
  finished :: bool

definition newResponse :: response where
  "newResponse =
     \<lparr>statusCode = 200, resHeaders = [], headersSent = False, resBody = [],
      finished = False\<rparr>"

definition res_status :: "nat \<Rightarrow> response \<Rightarrow> response" where
  "res_status code r = r\<lparr>statusCode := code\<rparr>"

definition res_setHeader :: "string \<Rightarrow> string \<Rightarrow> response \<Rightarrow> jserror + response" where
  "res_setHeader k v r =
     (if headersSent r then Inl ERR_HTTP_HEADERS_SENT
      else Inr (r\<lparr>resHeaders := AList.update (toLowerCase k) v (resHeaders r)\<rparr>))"

definition res_write :: "string \<Rightarrow> response \<Rightarrow> response" where
  "res_write chunk r =
     (if finished r then r
      else r\<lparr>headersSent := True, resBody := resBody r @ [Bytes chunk]\<rparr>)"

definition res_end :: "response \<Rightarrow> response" where
  "res_end r = (if finished r then r else r\<lparr>headersSent := True, finished := True\<rparr>)"

definition res_json :: "json \<Rightarrow> response \<Rightarrow> jserror + response" where
  "res_json obj r =
     (if headersSent r then Inl ERR_HTTP_HEADERS_SENT
      else Inr (r\<lparr>resHeaders :=
                    (case map_of (resHeaders r) ''content-type'' of
                       None \<Rightarrow> AList.update ''content-type'' ''application/json'' (resHeaders r)
                     | Some t \<Rightarrow> resHeaders r),
                  headersSent := True,
                  resBody := resBody r @ [JsonBody obj],
                  finished := True\<rparr>))"

section \<open>The edge tunnel manager (server/tunnel.js)\<close>

text \<open>
  Sockets and responses are objects shared with the rest of the server, so they live in
  stores indexed by a handle; \<open>activeTunnel.ws === ws\<close> compares handles. The in-flight
  table is a \<open>Map\<close>: an association list in insertion order. A socket keeps its
  \<open>readyState\<close> (0 connecting, 1 open, 2 closing, 3 closed) and the frames sent on it.
\<close>

record socket =
  readyState :: nat
  sent :: "message list"

record tunnel =
  ws :: nat
  port :: nat
  registeredAt :: int

record pending =
  res :: nat
  responseStarted :: bool

record edge =
  activeTunnel :: "tunnel option"
  pendingRequests :: "(string \<times> pending) list"
  sockets :: "nat \<Rightarrow> socket"
  responses :: "nat \<Rightarrow> response"

text \<open>
  A handler that throws leaves the state as it was at the throw: \<open>Inl (e, s)\<close>.
\<close>

type_synonym outcome = "(jserror \<times> edge) + edge"

definition stateOf :: "outcome \<Rightarrow> edge" where
  "stateOf x = (case x of Inl (e, s) \<Rightarrow> s | Inr s \<Rightarrow> s)"

definition andThen :: "outcome \<Rightarrow> (edge \<Rightarrow> outcome) \<Rightarrow> outcome" where
  "andThen x f = (case x of Inl y \<Rightarrow> Inl y | Inr s \<Rightarrow> f s)"

definition setRes :: "nat \<Rightarrow> response \<Rightarrow> edge \<Rightarrow> edge" where
  "setRes h r s = s\<lparr>responses := (responses s)(h := r)\<rparr>"

definition deletePending :: "string \<Rightarrow> edge \<Rightarrow> edge" where
  "deletePending rid s = s\<lparr>pendingRequests := AList.delete rid (pendingRequests s)\<rparr>"

text \<open>\<open>pendingReq.responseStarted = true\<close>: the record in the table is the object.\<close>

definition setStarted :: "string \<Rightarrow> edge \<Rightarrow> edge" where
  "setStarted rid s =
     s\<lparr>pendingRequests :=
         AList.map_entry rid (\<lambda>p. p\<lparr>responseStarted := True\<rparr>) (pendingRequests s)\<rparr>"

text \<open>\<open>res.status(code).json(obj)\<close>: the status is assigned before \<open>json\<close> can throw.\<close>

definition statusJson :: "nat \<Rightarrow> nat \<Rightarrow> json \<Rightarrow> edge \<Rightarrow> outcome" where
  "statusJson h code obj s =
     (let r = res_status code (responses s h)
      in case res_json obj r of
           Inl e \<Rightarrow> Inl (e, setRes h r s)
         | Inr r' \<Rightarrow> Inr (setRes h r' s))"

text \<open>
  \<open>ws.send\<close> of the socket library throws while the socket is connecting, transmits
  when it is open, and drops the frame otherwise.
\<close>

definition ws_send :: "nat \<Rightarrow> message \<Rightarrow> edge \<Rightarrow> outcome" where
  "ws_send h m s =
     (let k = sockets s h
      in if readyState k = 0 then Inl (WebSocketNotOpen, s)
         else if readyState k = 1
           then Inr (s\<lparr>sockets := (sockets s)(h := k\<lparr>sent := sent k @ [m]\<rparr>)\<rparr>)
         else Inr s)"

subsection \<open>registerTunnel\<close>

text \<open>
  The registration object is the literal \<open>{ws, port, registeredAt}\<close>. It has no
  \<open>close\<close> member, so \<open>this.activeTunnel.close()\<close> calls \<open>undefined\<close>: with a tunnel
  registered, the call throws a TypeError before anything is changed. The new socket's
  close listener is \<open>onClose\<close> below.
\<close>

definition registerTunnel :: "nat \<Rightarrow> message \<Rightarrow> int \<Rightarrow> edge \<Rightarrow> jserror + (tunnel \<times> edge)" where
  "registerTunnel w registration now s =
     (case activeTunnel s of
        Some old \<Rightarrow> Inl TypeError
      | None \<Rightarrow>
          (let t = \<lparr>ws = w, port = orDefault (m_port registration) 3000, registeredAt = now\<rparr>
           in Inr (t, s\<lparr>activeTunnel := Some t\<rparr>)))"

definition tunnelDisconnected :: json where
  "tunnelDisconnected =
     [(''error'', ''Tunnel disconnected''),
      (''message'', ''The tunnel connection has been lost'')]"

text \<open>The loop over \<open>pendingRequests.entries()\<close> of the close listener.\<close>

fun rejectAll :: "(string \<times> pending) list \<Rightarrow> edge \<Rightarrow> outcome" where
  "rejectAll [] s = Inr s"
| "rejectAll ((rid, p) # rest) s =
     andThen (statusJson (res p) 503 tunnelDisconnected s) (rejectAll rest)"

text \<open>The listener of the socket's \<open>close\<close> event, for the socket \<open>w\<close> it was set on.\<close>

definition onClose :: "nat \<Rightarrow> edge \<Rightarrow> outcome" where
  "onClose w s =
     (case activeTunnel s of
        None \<Rightarrow> Inr s
      | Some t \<Rightarrow>
          if ws t = w
          then andThen (rejectAll (pendingRequests s) (s\<lparr>activeTunnel := None\<rparr>))
                 (\<lambda>s'. Inr (s'\<lparr>pendingRequests := []\<rparr>))
          else Inr s)"

subsection \<open>isActive and getStatus\<close>

definition isActive :: "edge \<Rightarrow> bool" where
  "isActive s =
     (case activeTunnel s of
        None \<Rightarrow> False
      | Some t \<Rightarrow> readyState (sockets s (ws t)) = 1)"

text \<open>
  The object that \<open>getStatus\<close> returns, with its field names: the list of its entries.
  \<open>now\<close> is \<open>Date.now()\<close>, in milliseconds.
\<close>

datatype jsvalue = JNull | JBool bool | JNum int

definition getStatus :: "int \<Rightarrow> edge \<Rightarrow> (string \<times> jsvalue) list" where
  "getStatus now s =
     (case activeTunnel s of
        None \<Rightarrow> [(''connected'', JBool False), (''port'', JNull), (''uptime'', JNull)]
      | Some t \<Rightarrow>
          [(''connected'', JBool (isActive s)),
           (''port'', JNum (int (port t))),
           (''uptime'', JNum (now - registeredAt t))])"

subsection \<open>forwardRequest\<close>

text \<open>
  \<open>parseInt\<close>: leading white space, a sign, \<open>0x\<close> for radix 16, then the longest run of
  digits; \<open>None\<close> is NaN.
\<close>

definition digitVal :: "nat \<Rightarrow> char \<Rightarrow> nat option" where
  "digitVal radix c =
     (case map_of (zip ''0123456789abcdefABCDEF''
                       [0, 1, 2, 3, 4, 5, 6, 7, 8, 9, 10, 11, 12, 13, 14, 15,
                        10, 11, 12, 13, 14, 15]) c of
        None \<Rightarrow> None
      | Some d \<Rightarrow> if d < radix then Some d else None)"

definition digitsValue :: "nat \<Rightarrow> string \<Rightarrow> nat" where
  "digitsValue radix ds =
     foldl (\<lambda>a c. a * radix + (case digitVal radix c of Some d \<Rightarrow> d | None \<Rightarrow> 0)) 0 ds"

definition parseInt :: "string \<Rightarrow> int option" where
  "parseInt str =
     (let s1 = dropWhile isSpace str;
          neg = startsWith s1 ''-'';
          s2 = (if startsWith s1 ''-'' \<or> startsWith s1 ''+'' then tl s1 else s1);
          hex = (startsWith s2 ''0x'' \<or> startsWith s2 ''0X'');
          radix = (if hex then 16 else 10);
          s3 = (if hex then drop 2 s2 else s2);
          ds = takeWhile (\<lambda>c. digitVal radix c \<noteq> None) s3
      in if ds = [] then None
         else Some (if neg then - int (digitsValue radix ds) else int (digitsValue radix ds)))"

text \<open>
  The public request: its head. Its body arrives later, as \<open>data\<close> events and one
  \<open>end\<close> event.
\<close>

record request =
  r_method :: string
  r_url :: string
  r_headers :: "string headers"

text \<open>
  The truthiness of
  \<open>req.headers['content-length'] && parseInt(req.headers['content-length']) > 0\<close>.
\<close>

definition hasBodyOf :: "string headers \<Rightarrow> bool" where
  "hasBodyOf hdrs =
     (truthy (map_of hdrs ''content-length'') \<and>
      (case map_of hdrs ''content-length'' of
         None \<Rightarrow> False
       | Some v \<Rightarrow> (case parseInt v of None \<Rightarrow> False | Some n \<Rightarrow> n > 0)))"

definition errorMessage :: "jserror \<Rightarrow> string" where
  "errorMessage e =
     (case e of
        TypeError \<Rightarrow> ''TypeError''
      | SyntaxError \<Rightarrow> ''Unexpected token in JSON''
      | RangeError \<Rightarrow> ''Maximum call stack size exceeded''
      | ERR_HTTP_HEADERS_SENT \<Rightarrow> ''Cannot set headers after they are sent to the client''
      | WebSocketNotOpen \<Rightarrow> ''WebSocket is not open: readyState 0 (CONNECTING)''
      | MaxAttemptsReached \<Rightarrow> ''Max reconnection attempts reached'')"

definition noActiveTunnel :: json where
  "noActiveTunnel =
     [(''error'', ''No active tunnel''),
      (''message'', ''No tunnel client is currently connected'')]"

definition requestMessage :: "string \<Rightarrow> request \<Rightarrow> message" where
  "requestMessage requestId req =
     emptyMessage\<lparr>m_type := ''request'', m_id := Some requestId,
       m_method := Some (r_method req), m_url := Some (r_url req),
       m_headers := Some (sanitizeHeaders (r_headers req)),
       m_hasBody := hasBodyOf (r_headers req)\<rparr>"

text \<open>
  \<open>forwardRequest(req, res)\<close> up to its return; \<open>h\<close> is the handle of \<open>res\<close> and
  \<open>requestId\<close> the id minted from the clock and a random suffix. The listeners it sets
  (\<open>responseHandler\<close>, the request's \<open>data\<close>, \<open>end\<close> and \<open>error\<close>, the timer) are the
  functions below, each for the same \<open>requestId\<close>.
\<close>

definition forwardRequest :: "request \<Rightarrow> nat \<Rightarrow> string \<Rightarrow> edge \<Rightarrow> outcome" where
  "forwardRequest req h requestId s =
     (if headersSent (responses s h) then Inr s
      else if \<not> isActive s
        then (if \<not> headersSent (responses s h) then statusJson h 503 noActiveTunnel s
              else Inr s)
      else
        (let s1 = s\<lparr>pendingRequests :=
                     AList.update requestId \<lparr>res = h, responseStarted = False\<rparr>
                       (pendingRequests s)\<rparr>
         in case activeTunnel s1 of
              None \<Rightarrow> Inl (TypeError, s1)
            | Some t \<Rightarrow>
                (case ws_send (ws t) (requestMessage requestId req) s1 of
                   Inl (e, s2) \<Rightarrow>
                     statusJson h 500
                       [(''error'', ''Tunnel communication error''),
                        (''message'', errorMessage e)]
                       (deletePending requestId s2)
                 | Inr s2 \<Rightarrow> Inr s2)))"

text \<open>
  The listener of the request's \<open>data\<close> event; \<open>enc\<close> is \<open>chunk.toString('base64')\<close>.
  An error of \<open>send\<close> is caught and logged.
\<close>

definition chunkMessage :: "(string \<Rightarrow> string) \<Rightarrow> string \<Rightarrow> string \<Rightarrow> message" where
  "chunkMessage enc requestId chunk =
     emptyMessage\<lparr>m_type := ''chunk'', m_id := Some requestId, m_data := Some (enc chunk)\<rparr>"

definition onReqData :: "(string \<Rightarrow> string) \<Rightarrow> string \<Rightarrow> string \<Rightarrow> edge \<Rightarrow> edge" where
  "onReqData enc requestId chunk s =
     (case activeTunnel s of
        None \<Rightarrow> s
      | Some t \<Rightarrow>
          if readyState (sockets s (ws t)) = 1
          then stateOf (ws_send (ws t) (chunkMessage enc requestId chunk) s)
          else s)"

text \<open>The listener of the request's \<open>end\<close> event.\<close>

definition endMessage :: "string \<Rightarrow> message" where
  "endMessage requestId =
     emptyMessage\<lparr>m_type := ''end'', m_id := Some requestId,
       m_direction := Some ''request''\<rparr>"

definition onReqEnd :: "string \<Rightarrow> edge \<Rightarrow> edge" where
  "onReqEnd requestId s =
     (case activeTunnel s of
        None \<Rightarrow> s
      | Some t \<Rightarrow>
          if readyState (sockets s (ws t)) = 1
          then stateOf (ws_send (ws t) (endMessage requestId) s)
          else s)"

text \<open>
  \<open>this.activeTunnel.ws.removeListener(...)\<close> without a guard: a TypeError when no
  tunnel is registered. (Which listeners a socket holds is not part of the state: a
  \<open>responseHandler\<close> whose record is gone returns at once, and the records of the table
  have theirs on the registered socket.)
\<close>

definition removeListener :: "edge \<Rightarrow> outcome" where
  "removeListener s = (if activeTunnel s = None then Inl (TypeError, s) else Inr s)"

text \<open>The listener of the request's \<open>error\<close> event.\<close>

definition onReqError :: "string \<Rightarrow> string \<Rightarrow> edge \<Rightarrow> outcome" where
  "onReqError requestId msg s =
     (case map_of (pendingRequests s) requestId of
        None \<Rightarrow> Inr s
      | Some p \<Rightarrow>
          andThen
            (if \<not> responseStarted p
             then statusJson (res p) 500
                    [(''error'', ''Request stream error''), (''message'', msg)] s
             else Inr s)
            (\<lambda>s1. removeListener (deletePending requestId s1)))"

text \<open>The timer set for 30000 ms.\<close>

definition requestTimeout :: json where
  "requestTimeout =
     [(''error'', ''Request timeout''),
      (''message'', ''The tunnel client did not respond in time'')]"

definition onTimeout :: "string \<Rightarrow> edge \<Rightarrow> outcome" where
  "onTimeout requestId s =
     (case map_of (pendingRequests s) requestId of
        None \<Rightarrow> Inr s
      | Some p \<Rightarrow>
          andThen
            (if \<not> responseStarted p
             then statusJson (res p) 504 requestTimeout s
             else Inr (setRes (res p) (res_end (responses s (res p))) s))
            (\<lambda>s1. removeListener (deletePending requestId s1)))"

subsection \<open>responseHandler\<close>

text \<open>
  The listener that \<open>forwardRequest\<close> sets on the socket for its \<open>requestId\<close>;
  \<open>dec\<close> is \<open>Buffer.from(\<cdot>, 'base64')\<close>, which throws a TypeError on \<open>undefined\<close>.
  First the \<open>try\<close> block, then the \<open>catch\<close> block, which runs on the state the \<open>try\<close>
  block left.
\<close>

fun setHeaders :: "nat \<Rightarrow> string headers \<Rightarrow> edge \<Rightarrow> outcome" where
  "setHeaders h [] s = Inr s"
| "setHeaders h ((k, v) # rest) s =
     (case res_setHeader k v (responses s h) of
        Inl e \<Rightarrow> Inl (e, s)
      | Inr r \<Rightarrow> setHeaders h rest (setRes h r s))"

definition onResponseFrame :: "(string \<Rightarrow> string) \<Rightarrow> string \<Rightarrow> message \<Rightarrow> pending \<Rightarrow> edge \<Rightarrow> outcome" where
  "onResponseFrame dec requestId m p s =
     andThen
       (case m_headers m of None \<Rightarrow> Inr s | Some hs \<Rightarrow> setHeaders (res p) hs s)
       (\<lambda>s1.
          let s2 = setStarted requestId
                     (setRes (res p)
                        (res_status (orDefault (m_status m) 200) (responses s1 (res p))) s1);
              s3 = (case m_body m of
                      None \<Rightarrow> s2
                    | Some b \<Rightarrow>
                        if b \<noteq> []
                        then setRes (res p) (res_write (dec b) (responses s2 (res p))) s2
                        else s2)
          in if \<not> m_streaming m
             then Inr (deletePending requestId
                         (setRes (res p) (res_end (responses s3 (res p))) s3))
             else Inr s3)"

definition onChunkFrame :: "(string \<Rightarrow> string) \<Rightarrow> string \<Rightarrow> message \<Rightarrow> pending \<Rightarrow> edge \<Rightarrow> outcome" where
  "onChunkFrame dec requestId m p s =
     (let start = (\<not> responseStarted p \<and> \<not> headersSent (responses s (res p)));
          s1 = (if start
                then setStarted requestId
                       (setRes (res p) (res_status 200 (responses s (res p))) s)
                else s);
          p1 = (if start then p\<lparr>responseStarted := True\<rparr> else p)
      in if \<not> headersSent (responses s1 (res p)) \<or> responseStarted p1
         then (case m_data m of
                 None \<Rightarrow> Inl (TypeError, s1)
               | Some d \<Rightarrow>
                   Inr (setRes (res p) (res_write (dec d) (responses s1 (res p))) s1))
         else Inr s1)"

definition onEndFrame :: "string \<Rightarrow> pending \<Rightarrow> edge \<Rightarrow> outcome" where
  "onEndFrame requestId p s =
     (let s1 = (if \<not> responseStarted p \<and> \<not> headersSent (responses s (res p))
                then setRes (res p) (res_status 200 (responses s (res p))) s
                else s);
          s2 = (if \<not> headersSent (responses s1 (res p)) \<or> responseStarted p
                then setRes (res p) (res_end (responses s1 (res p))) s1
                else s1)
      in Inr (deletePending requestId s2))"

definition tryBlock :: "(string \<Rightarrow> string) \<Rightarrow> string \<Rightarrow> wire \<Rightarrow> edge \<Rightarrow> outcome" where
  "tryBlock dec requestId data s =
     (case data of
        Malformed \<Rightarrow> Inl (SyntaxError, s)
      | Frame m \<Rightarrow>
          if m_id m \<noteq> Some requestId then Inr s
          else
            (case map_of (pendingRequests s) requestId of
               None \<Rightarrow> Inr s
             | Some p \<Rightarrow>
                 if m_type m = ''response'' then onResponseFrame dec requestId m p s
                 else if m_type m = ''chunk'' then onChunkFrame dec requestId m p s
                 else if m_type m = ''end'' then onEndFrame requestId p s
                 else Inr s))"

definition catchBlock :: "string \<Rightarrow> jserror \<Rightarrow> edge \<Rightarrow> outcome" where
  "catchBlock requestId e s =
     (case map_of (pendingRequests s) requestId of
        None \<Rightarrow> Inr s
      | Some p \<Rightarrow>
          andThen
            (if \<not> responseStarted p
             then statusJson (res p) 500
                    [(''error'', ''Invalid response from tunnel''),
                     (''message'', errorMessage e)] s
             else Inr (setRes (res p) (res_end (responses s (res p))) s))
            (\<lambda>s1. Inr (deletePending requestId s1)))"

definition responseHandler :: "(string \<Rightarrow> string) \<Rightarrow> string \<Rightarrow> wire \<Rightarrow> edge \<Rightarrow> outcome" where
  "responseHandler dec requestId data s =
     (case tryBlock dec requestId data s of
        Inl (e, s1) \<Rightarrow> catchBlock requestId e s1
      | Inr s1 \<Rightarrow> Inr s1)"

subsection \<open>The socket's message event (server/server.js)\<close>

text \<open>
  A message that arrives on socket \<open>w\<close> is the event \<open>message\<close> of that socket, and
  \<open>emit\<close> calls the listeners of the event one after the other, in the order they were
  added, of the list it holds when it starts; an exception of a listener leaves \<open>emit\<close>.
  The first listener is the one that \<open>server.js\<close> adds at connection; the others are the
  \<open>responseHandler\<close>s of the requests in flight, which \<open>forwardRequest\<close> adds to the
  registered socket.

  The listener of \<open>server.js\<close> registers the tunnel on a \<open>register\<close> frame and
  acknowledges it; on a \<open>response\<close>, \<open>chunk\<close> or \<open>end\<close> frame it calls
  \<open>ws.emit('message', data)\<close> on the same socket, which calls this listener again. The
  calls nest until the stack is exhausted and a call throws a RangeError; the \<open>catch\<close>
  of the listener above it reports the error with an \<open>error\<close> frame, and when the
  \<open>catch\<close> has no room either, the error passes to the listener one level up.
  \<open>depth\<close> counts the \<open>emit\<close>s from the event itself down to the listener whose
  \<open>catch\<close> completes: \<open>emit\<close> at depth 0 is the call that fails.
\<close>

definition registeredFrame :: "tunnel \<Rightarrow> message" where
  "registeredFrame t = emptyMessage\<lparr>m_type := ''registered'', m_port := Some (port t)\<rparr>"

definition errorFrame :: "jserror \<Rightarrow> message" where
  "errorFrame e = emptyMessage\<lparr>m_type := ''error'', m_message := Some (errorMessage e)\<rparr>"

definition handlersOf :: "nat \<Rightarrow> edge \<Rightarrow> string list" where
  "handlersOf w s =
     (case activeTunnel s of
        None \<Rightarrow> []
      | Some t \<Rightarrow> if ws t = w then map fst (pendingRequests s) else [])"

fun runHandlers :: "(string \<Rightarrow> string) \<Rightarrow> string list \<Rightarrow> wire \<Rightarrow> edge \<Rightarrow> outcome" where
  "runHandlers dec [] data s = Inr s"
| "runHandlers dec (requestId # rest) data s =
     andThen (responseHandler dec requestId data s) (runHandlers dec rest data)"

fun emitMessage :: "nat \<Rightarrow> (string \<Rightarrow> string) \<Rightarrow> int \<Rightarrow> nat \<Rightarrow> wire \<Rightarrow> edge \<Rightarrow> outcome" where
  "emitMessage 0 dec now w data s = Inl (RangeError, s)"
| "emitMessage (Suc depth) dec now w data s =
     andThen
       (case (case data of
                Malformed \<Rightarrow> Inl (SyntaxError, s)
              | Frame m \<Rightarrow>
                  if m_type m = ''register''
                  then (case registerTunnel w m now s of
                          Inl e \<Rightarrow> Inl (e, s)
                        | Inr (t, s1) \<Rightarrow> ws_send w (registeredFrame t) s1)
                  else if m_type m = ''response'' \<or> m_type m = ''chunk'' \<or> m_type m = ''end''
                    then emitMessage depth dec now w data s
                  else Inr s) of
          Inl (e, s1) \<Rightarrow> ws_send w (errorFrame e) s1
        | Inr s1 \<Rightarrow> Inr s1)
       (runHandlers dec (handlersOf w s) data)"

section \<open>The client dispatcher (client/lib/tunnel.js)\<close>

text \<open>
  The requests to the local service are objects that outlive their entry in the pending
  table, so they live in a store (a handle is an index); the table maps a frame's \<open>id\<close>
  (possibly absent) to a handle. Writing to an ended request changes nothing. The
  callbacks of the local response and of a local error run later, as events of their own,
  and are not part of the functions below.
\<close>

record localRequest =
  l_port :: nat
  l_method :: "string option"
  l_path :: "string option"
  l_headers :: "string headers"
  l_written :: "string list"
  l_ended :: bool

record client =
  localRequests :: "localRequest list"
  pendingLocal :: "(string option \<times> nat) list"

definition l_write :: "string \<Rightarrow> localRequest \<Rightarrow> localRequest" where
  "l_write chunk r = (if l_ended r then r else r\<lparr>l_written := l_written r @ [chunk]\<rparr>)"

definition l_end :: "localRequest \<Rightarrow> localRequest" where
  "l_end r = r\<lparr>l_ended := True\<rparr>"

definition onLocal :: "nat \<Rightarrow> (localRequest \<Rightarrow> localRequest) \<Rightarrow> client \<Rightarrow> client" where
  "onLocal h f c =
     c\<lparr>localRequests := (localRequests c)[h := f (localRequests c ! h)]\<rparr>"

definition forgetLocal :: "string option \<Rightarrow> client \<Rightarrow> client" where
  "forgetLocal i c = c\<lparr>pendingLocal := AList.delete i (pendingLocal c)\<rparr>"

definition forwardToLocal :: "(string \<Rightarrow> string) \<Rightarrow> message \<Rightarrow> nat \<Rightarrow> client \<Rightarrow> client" where
  "forwardToLocal dec m localPort c =
     (let h = length (localRequests c);
          req = \<lparr>l_port = localPort, l_method = m_method m, l_path = m_url m,
                 l_headers = (case m_headers m of None \<Rightarrow> [] | Some hs \<Rightarrow> hs),
                 l_written = [], l_ended = False\<rparr>;
          c1 = c\<lparr>localRequests := localRequests c @ [req],
                 pendingLocal := AList.update (m_id m) h (pendingLocal c)\<rparr>
      in case m_body m of
           None \<Rightarrow>
             if \<not> m_hasBody m then forgetLocal (m_id m) (onLocal h l_end c1) else c1
         | Some b \<Rightarrow>
             if b \<noteq> []
             then forgetLocal (m_id m) (onLocal h l_end (onLocal h (l_write (dec b)) c1))
             else if \<not> m_hasBody m then forgetLocal (m_id m) (onLocal h l_end c1)
             else c1)"

definition handleRequestChunk :: "(string \<Rightarrow> string) \<Rightarrow> message \<Rightarrow> client \<Rightarrow> jserror + client" where
  "handleRequestChunk dec m c =
     (case map_of (pendingLocal c) (m_id m) of
        None \<Rightarrow> Inr c
      | Some h \<Rightarrow>
          (case m_data m of
             None \<Rightarrow> Inl TypeError
           | Some d \<Rightarrow> Inr (onLocal h (l_write (dec d)) c)))"

definition handleRequestEnd :: "message \<Rightarrow> client \<Rightarrow> client" where
  "handleRequestEnd m c =
     (case map_of (pendingLocal c) (m_id m) of
        None \<Rightarrow> c
      | Some h \<Rightarrow> forgetLocal (m_id m) (onLocal h l_end c))"

text \<open>
  The socket's \<open>message\<close> listener of \<open>connectOnce\<close>. Its \<open>try\<close>/\<open>catch\<close> logs an error
  and goes on; the handlers change nothing before they throw.
\<close>

definition onMessage :: "(string \<Rightarrow> string) \<Rightarrow> nat \<Rightarrow> wire \<Rightarrow> client \<Rightarrow> client" where
  "onMessage dec localPort data c =
     (case data of
        Malformed \<Rightarrow> c
      | Frame m \<Rightarrow>
          if m_type m = ''registered'' then c
          else if m_type m = ''request'' then forwardToLocal dec m localPort c
          else if m_type m = ''chunk'' \<and> m_direction m = Some ''request''
            then (case handleRequestChunk dec m c of Inl e \<Rightarrow> c | Inr c' \<Rightarrow> c')
          else if m_type m = ''end'' \<and> m_direction m = Some ''request''
            then handleRequestEnd m c
          else c)"

text \<open>The client receives, in order, the frames that the edge sent on a socket.\<close>

definition deliver :: "(string \<Rightarrow> string) \<Rightarrow> nat \<Rightarrow> message list \<Rightarrow> client \<Rightarrow> client" where
  "deliver dec localPort frames c = fold (\<lambda>m. onMessage dec localPort (Frame m)) frames c"

section \<open>The reconnection controller (client/lib/reconnect.js)\<close>

text \<open>
  \<open>maxAttempts = None\<close> is \<open>Infinity\<close>. \<open>Math.random()\<close> is the argument \<open>rnd\<close>, a
  number in \<open>[0, 1)\<close>; the jitter is computed over the reals.
\<close>

record reconnectManager =
  attempts :: nat
  maxAttempts :: "nat option"
  baseDelay :: nat
  maxDelay :: nat
  isReconnecting :: bool
  timerPending :: bool

text \<open>The controller as \<open>createTunnel\<close> constructs it: no option but the two callbacks.\<close>

definition newReconnectManager :: reconnectManager where
  "newReconnectManager =
     \<lparr>attempts = 0, maxAttempts = None, baseDelay = 1000, maxDelay = 60000,
      isReconnecting = False, timerPending = False\<rparr>"

definition getDelay :: "real \<Rightarrow> reconnectManager \<Rightarrow> int" where
  "getDelay rnd m =
     (let delay = min (baseDelay m * 2 ^ attempts m) (maxDelay m);
          jitter = rnd * 0.3 * real delay
      in \<lfloor>real delay + jitter\<rfloor>)"

text \<open>
  \<open>reconnect(connectFn)\<close> up to the timer it sets: the new state and the delay of the
  timer, \<open>None\<close> when the call returns at once.
\<close>

definition reconnect :: "real \<Rightarrow> reconnectManager \<Rightarrow> (jserror \<times> reconnectManager) + (reconnectManager \<times> int option)" where
  "reconnect rnd m =
     (if isReconnecting m then Inr (m, None)
      else
        (let m1 = m\<lparr>isReconnecting := True, attempts := attempts m + 1\<rparr>
         in if (case maxAttempts m1 of None \<Rightarrow> False | Some k \<Rightarrow> attempts m1 > k)
            then Inl (MaxAttemptsReached, m1\<lparr>isReconnecting := False\<rparr>)
            else Inr (m1\<lparr>timerPending := True\<rparr>, Some (getDelay rnd m1))))"

text \<open>The timer's callback when \<open>connectFn\<close> resolved, and \<open>reset\<close>.\<close>

definition connected_ok :: "reconnectManager \<Rightarrow> reconnectManager" where
  "connected_ok m = m\<lparr>attempts := 0, isReconnecting := False\<rparr>"

definition reset :: "reconnectManager \<Rightarrow> reconnectManager" where
  "reset m = m\<lparr>attempts := 0, isReconnecting := False, timerPending := False\<rparr>"

text \<open>
  Consecutive attempts with no successful open between them: after a failed attempt the
  callback clears \<open>isReconnecting\<close> and calls \<open>reconnect\<close> again. One random draw per
  attempt; the result lists the delays.
\<close>

fun attemptDelays :: "real list \<Rightarrow> reconnectManager \<Rightarrow> int list" where
  "attemptDelays [] m = []"
| "attemptDelays (rnd # rnds) m =
     (case reconnect rnd (m\<lparr>isReconnecting := False\<rparr>) of
        Inl e \<Rightarrow> []
      | Inr (m1, None) \<Rightarrow> []
      | Inr (m1, Some d) \<Rightarrow> d # attemptDelays rnds m1)"

section \<open>The configuration file (client/lib/config.js)\<close>


record config =
  domain :: "string option"
  createdAt :: "string option"
  updatedAt :: "string option"

datatype content = Unparsable | JsonNull | JsonObject config







section \<open>Reachable states of the edge\<close>

text \<open>
  Three properties of a state of the edge: a record that is not started has a response
  of which nothing has been sent; two records never share a response; a finished response
  has its head sent.
\<close>

definition cleanAwaiting :: "edge \<Rightarrow> bool" where
  "cleanAwaiting s =
     (\<forall>rid p. map_of (pendingRequests s) rid = Some p \<longrightarrow>
        responseStarted p \<or>
        (\<not> headersSent (responses s (res p)) \<and> \<not> finished (responses s (res p))))"

definition ownResponse :: "edge \<Rightarrow> bool" where
  "ownResponse s =
     (\<forall>rid rid' p p'. map_of (pendingRequests s) rid = Some p \<longrightarrow>
        map_of (pendingRequests s) rid' = Some p' \<longrightarrow> res p = res p' \<longrightarrow> rid = rid')"

definition sentBeforeFinished :: "edge \<Rightarrow> bool" where
  "sentBeforeFinished s = (\<forall>h. finished (responses s h) \<longrightarrow> headersSent (responses s h))"

definition edgeInv :: "edge \<Rightarrow> bool" where
  "edgeInv s = (cleanAwaiting s \<and> ownResponse s \<and> sentBeforeFinished s)"


text \<open>While a request is in flight, a tunnel is registered.\<close>

definition tunnelHeld :: "edge \<Rightarrow> bool" where
  "tunnelHeld s = (pendingRequests s = [] \<or> activeTunnel s \<noteq> None)"

text \<open>
  The states the edge reaches from its start, one rule per event. The server starts with
  no tunnel and an empty table; sockets change state on their own; every public request
  comes with a response object of its own, so in \<open>forward\<close> no record of the table holds
  the handle \<open>h\<close>. An exception that leaves a listener or a timer ends the server
  process, so only a handler that returns leads to a next state; a failed registration
  is caught by its caller and leaves the state as it is. The rule \<open>message\<close> is one
  call of a \<open>responseHandler\<close>; the socket's \<open>message\<close> event is made of such calls,
  registrations and sends (\<open>reachable_emitMessage\<close>).
\<close>

inductive reachable :: "(string \<Rightarrow> string) \<Rightarrow> (string \<Rightarrow> string) \<Rightarrow> edge \<Rightarrow> bool"
  for enc dec where
  start: "reachable enc dec
      \<lparr>activeTunnel = None, pendingRequests = [], sockets = k, responses = (\<lambda>h. newResponse)\<rparr>"
| socket: "reachable enc dec s \<Longrightarrow> reachable enc dec (s\<lparr>sockets := k\<rparr>)"
| register: "reachable enc dec s \<Longrightarrow> registerTunnel w registration now s = Inr (t, s') \<Longrightarrow>
      reachable enc dec s'"
| forward: "reachable enc dec s \<Longrightarrow>
      (\<forall>rid p. map_of (pendingRequests s) rid = Some p \<longrightarrow> res p \<noteq> h) \<Longrightarrow>
      forwardRequest req h requestId s = Inr s' \<Longrightarrow> reachable enc dec s'"
| data: "reachable enc dec s \<Longrightarrow> reachable enc dec (onReqData enc requestId chunk s)"
| ended: "reachable enc dec s \<Longrightarrow> reachable enc dec (onReqEnd requestId s)"
| error: "reachable enc dec s \<Longrightarrow> onReqError requestId msg s = Inr s' \<Longrightarrow>
      reachable enc dec s'"
| timeout: "reachable enc dec s \<Longrightarrow> onTimeout requestId s = Inr s' \<Longrightarrow>
      reachable enc dec s'"
| message: "reachable enc dec s \<Longrightarrow> responseHandler dec requestId data s = Inr s' \<Longrightarrow>
      reachable enc dec s'"
| close: "reachable enc dec s \<Longrightarrow> onClose w s = Inr s' \<Longrightarrow> reachable enc dec s'"


section \<open>Concrete states\<close>

text \<open>
  The edge with a client registered on the open socket 1 and nothing in flight; every
  response is fresh. \<open>inFlight st r\<close> is the edge with the one request \<open>req_1\<close> in
  flight, its record's flag \<open>st\<close> and its response (handle 0) \<open>r\<close>.
\<close>

definition edge0 :: edge where
  "edge0 =
     \<lparr>activeTunnel = Some \<lparr>ws = 1, port = 3000, registeredAt = 0\<rparr>,
      pendingRequests = [],
      sockets = (\<lambda>h. \<lparr>readyState = 1, sent = []\<rparr>),
      responses = (\<lambda>h. newResponse)\<rparr>"

definition inFlight :: "bool \<Rightarrow> response \<Rightarrow> edge" where
  "inFlight st r =
     edge0\<lparr>pendingRequests := [(''req_1'', \<lparr>res = 0, responseStarted = st\<rparr>)],
       responses := (\<lambda>h. if h = 0 then r else newResponse)\<rparr>"

definition client0 :: client where
  "client0 = \<lparr>localRequests = [], pendingLocal = []\<rparr>"

text \<open>A \<open>chunk\<close> frame for \<open>req_1\<close> with the base64 text \<open>d\<close>.\<close>

definition earlyChunk :: "string \<Rightarrow> message" where
  "earlyChunk d =
     emptyMessage\<lparr>m_type := ''chunk'', m_id := Some ''req_1'', m_data := Some d\<rparr>"

text \<open>A public \<open>POST\<close> that announces a body of three bytes.\<close>

definition upload :: request where
  "upload =
     \<lparr>r_method = ''POST'', r_url = ''/upload'',
      r_headers = [(''host'', ''edge.example''), (''content-length'', ''3'')]\<rparr>"

section \<open>Header sanitization: proofs\<close>

lemma sanitizeLoop_filter:
  "distinct (map fst (acc @ hdrs)) \<Longrightarrow>
   sanitizeLoop hdrs acc = acc @ filter (\<lambda>(k, v). toLowerCase k \<notin> set hopByHop) hdrs"
proof (induction hdrs arbitrary: acc)
  case Nil
  then show ?case by simp
next
  case (Cons kv rest)
  obtain k v where kv: "kv = (k, v)" by (cases kv)
  from Cons.prems kv have fresh: "k \<notin> fst ` set acc" by auto
  have upd: "AList.update k v acc = acc @ [(k, v)]"
    using fresh by (induction acc) auto
  show ?case
  proof (cases "toLowerCase k \<in> set hopByHop")
    case True
    from Cons.prems kv have "distinct (map fst (acc @ rest))" by auto
    from Cons.IH [OF this] True kv show ?thesis by simp
  next
    case False
    from Cons.prems kv have "distinct (map fst ((acc @ [(k, v)]) @ rest))" by auto
    from Cons.IH [OF this] False kv upd show ?thesis by simp
  qed
qed

lemma sanitizeHeaders_filter:
  "distinct (map fst hdrs) \<Longrightarrow>
   sanitizeHeaders hdrs = filter (\<lambda>(k, v). toLowerCase k \<notin> set hopByHop) hdrs"
  using sanitizeLoop_filter [of "[]" hdrs] by (simp add: sanitizeHeaders_def)

text \<open>
  C4. For every header object, the sanitized object has no key whose lower-case form is
  one of the eight hop-by-hop names, and every entry of the input whose key is not such a
  name is an entry of the result, with the value it had; the result has no other entry.
\<close>

theorem sanitizeHeaders_strips_hop_by_hop:
  assumes "distinct (map fst hdrs)"
  shows "(\<forall>k v. (k, v) \<in> set (sanitizeHeaders hdrs) \<longrightarrow>
            toLowerCase k \<notin> {''connection'', ''keep-alive'', ''proxy-authenticate'',
              ''proxy-authorization'', ''te'', ''trailers'', ''transfer-encoding'',
              ''upgrade''})
       \<and> (\<forall>k v. (k, v) \<in> set hdrs \<and>
            toLowerCase k \<notin> {''connection'', ''keep-alive'', ''proxy-authenticate'',
              ''proxy-authorization'', ''te'', ''trailers'', ''transfer-encoding'',
              ''upgrade''} \<longrightarrow> (k, v) \<in> set (sanitizeHeaders hdrs))
       \<and> set (sanitizeHeaders hdrs) \<subseteq> set hdrs"
proof -
  have names: "set hopByHop = {''connection'', ''keep-alive'', ''proxy-authenticate'',
      ''proxy-authorization'', ''te'', ''trailers'', ''transfer-encoding'', ''upgrade''}"
    unfolding hopByHop_def by (simp only: list.set)
  show ?thesis
    unfolding sanitizeHeaders_filter [OF assms] names [symmetric] by auto
qed

theorem sanitizeHeaders_strips_hop_by_hop_witness:
  "sanitizeHeaders [(''Host'', ''example.org''), (''Keep-Alive'', ''timeout=5''),
       (''TE'', ''trailers''), (''accept'', ''*/*'')]
     = [(''Host'', ''example.org''), (''accept'', ''*/*'')]
   \<and> (''accept'', ''*/*'') \<in> set (sanitizeHeaders [(''Host'', ''example.org''),
       (''Keep-Alive'', ''timeout=5''), (''TE'', ''trailers''), (''accept'', ''*/*'')])"
proof -
  let ?h = "[(''Host'', ''example.org''), (''Keep-Alive'', ''timeout=5''),
       (''TE'', ''trailers''), (''accept'', ''*/*'')]"
  have d: "distinct (map fst ?h)" by code_simp
  have low: "toLowerCase ''accept'' \<notin> {''connection'', ''keep-alive'',
      ''proxy-authenticate'', ''proxy-authorization'', ''te'', ''trailers'',
      ''transfer-encoding'', ''upgrade''}"
    by code_simp
  have inp: "(''accept'', ''*/*'') \<in> set ?h" by code_simp
  have mem: "(''accept'', ''*/*'') \<in> set (sanitizeHeaders ?h)"
    using sanitizeHeaders_strips_hop_by_hop [OF d] low inp by blast
  have val: "sanitizeHeaders ?h = [(''Host'', ''example.org''), (''accept'', ''*/*'')]"
    by code_simp
  from val mem show ?thesis by (simp only: simp_thms)
qed

section \<open>Registration\<close>

text \<open>
  C2. A second registration, in any state in which a tunnel is registered: the claim is
  that the previous channel is closed, its requests are failed with 503, and the new
  registration becomes the active one. The code throws at \<open>this.activeTunnel.close()\<close>
  and changes nothing: the previous registration stays, with its requests in flight.
\<close>

theorem registerTunnel_second_throws:
  "registerTunnel w registration now (s\<lparr>activeTunnel := Some old\<rparr>) = Inl TypeError"
  by (simp add: registerTunnel_def)

section \<open>Reconnection delays\<close>

lemma getDelay_no_jitter:
  "getDelay 0 m = int (min (baseDelay m * 2 ^ attempts m) (maxDelay m))"
  by (simp add: getDelay_def Let_def)

lemma attemptDelays_no_jitter:
  "maxAttempts m = None \<Longrightarrow>
   attemptDelays (replicate n 0) m =
     map (\<lambda>k. int (min (baseDelay m * 2 ^ (attempts m + k)) (maxDelay m))) [1..<Suc n]"
proof (induction n arbitrary: m)
  case 0
  show ?case by simp
next
  case (Suc n)
  let ?m1 = "m\<lparr>isReconnecting := True, attempts := attempts m + 1, timerPending := True\<rparr>"
  have r: "reconnect 0 (m\<lparr>isReconnecting := False\<rparr>) =
      Inr (?m1, Some (int (min (baseDelay m * 2 ^ (attempts m + 1)) (maxDelay m))))"
    using Suc.prems by (simp add: reconnect_def Let_def getDelay_no_jitter)
  have ih: "attemptDelays (replicate n 0) ?m1 =
      map (\<lambda>k. int (min (baseDelay m * 2 ^ (attempts m + 1 + k)) (maxDelay m))) [1..<Suc n]"
    using Suc.IH [of ?m1] Suc.prems by simp
  have "[1..<Suc (Suc n)] = 1 # map Suc [1..<Suc n]"
    by (metis One_nat_def map_Suc_upt upt_conv_Cons zero_less_Suc Suc_less_eq)
  then show ?case using r ih by (simp add: comp_def)
qed

text \<open>With a draw in \<open>[0, 1)\<close> the delay lies between the base delay and 1.3 times it.\<close>

lemma getDelay_bounds:
  assumes "0 \<le> rnd" and "rnd < 1"
  shows "int (min (baseDelay m * 2 ^ attempts m) (maxDelay m)) \<le> getDelay rnd m
       \<and> real_of_int (getDelay rnd m)
           \<le> 1.3 * real (min (baseDelay m * 2 ^ attempts m) (maxDelay m))"
proof -
  let ?d = "min (baseDelay m * 2 ^ attempts m) (maxDelay m)"
  have j0: "0 \<le> rnd * 0.3 * real ?d" using assms(1) by simp
  have "rnd * real ?d \<le> 1 * real ?d"
    using assms(2) by (intro mult_right_mono) simp_all
  then have j1: "rnd * 0.3 * real ?d \<le> 0.3 * real ?d" by simp
  have g: "getDelay rnd m = \<lfloor>real ?d + rnd * 0.3 * real ?d\<rfloor>"
    by (simp add: getDelay_def Let_def)
  have lo: "int ?d \<le> \<lfloor>real ?d + rnd * 0.3 * real ?d\<rfloor>"
    using j0 by (simp add: le_floor_iff)
  have hi: "real_of_int \<lfloor>real ?d + rnd * 0.3 * real ?d\<rfloor> \<le> real ?d + rnd * 0.3 * real ?d"
    by (rule of_int_floor_le)
  from g lo hi j1 show ?thesis by simp
qed

lemma first_delay_with_jitter: "0 \<le> rnd \<Longrightarrow> rnd < 1 \<Longrightarrow>
   \<exists>d. attemptDelays [rnd] newReconnectManager = [d] \<and> 2000 \<le> d \<and> d \<le> 2600"
proof -
  assume a: "0 \<le> rnd" "rnd < 1"
  let ?m1 = "newReconnectManager\<lparr>isReconnecting := True, attempts := 1\<rparr>"
  have e: "attemptDelays [rnd] newReconnectManager = [getDelay rnd ?m1]"
    by (simp add: reconnect_def newReconnectManager_def Let_def)
  have d: "min (baseDelay ?m1 * 2 ^ attempts ?m1) (maxDelay ?m1) = 2000"
    by (simp add: newReconnectManager_def)
  from getDelay_bounds [OF a, of ?m1] d have "2000 \<le> getDelay rnd ?m1 \<and> real_of_int (getDelay rnd ?m1) \<le> 2600"
    by simp
  then have "2000 \<le> getDelay rnd ?m1 \<and> getDelay rnd ?m1 \<le> 2600" by linarith
  with e show ?thesis by simp
qed

text \<open>
  C3. The delays of consecutive attempts. The claim is a base delay of
  \<open>min (1000 * 2 ^ (n - 1)) 60000\<close> for attempt \<open>n\<close>: 1000, 2000, 4000 for the first
  three. \<open>reconnect\<close> increments \<open>attempts\<close> before \<open>getDelay\<close> reads it, so with no
  jitter the \<open>n\<close>-th delay is \<open>min (1000 * 2 ^ n) 60000\<close>: 2000, 4000, 8000. (With
  jitter the first delay is between 2000 and 2600, by \<open>first_delay_with_jitter\<close>.)
\<close>

theorem reconnect_delays_start_at_two_seconds:
  "attemptDelays (replicate n 0) newReconnectManager =
     map (\<lambda>k. int (min (1000 * 2 ^ k) 60000)) [1..<Suc n]
   \<and> attemptDelays [0, 0, 0] newReconnectManager = [2000, 4000, 8000]"
proof -
  have none: "maxAttempts newReconnectManager = None"
    by (simp add: newReconnectManager_def)
  have gen: "attemptDelays (replicate n 0) newReconnectManager =
      map (\<lambda>k. int (min (1000 * 2 ^ k) 60000)) [1..<Suc n]"
    using attemptDelays_no_jitter [OF none, of n] by (simp add: newReconnectManager_def)
  have three: "attemptDelays [0, 0, 0] newReconnectManager = [2000, 4000, 8000]"
    by (simp add: reconnect_def getDelay_def newReconnectManager_def)
  from gen three show ?thesis by simp
qed

section \<open>The deadline\<close>

text \<open>
  C5. When the timer of a request fires while its record is in the table: if no response
  has started (and so nothing of the head has been sent), the response gets status 504
  and the JSON body with \<open>error: Request timeout\<close>, and is finished; if a response has
  started, the response is finished with its status and body as they are. In both cases
  the record, and no other, leaves the table; the handler returns normally while a tunnel
  is registered; and a second firing finds no record and changes nothing. (In every
  reachable state a record that is not started has nothing sent, and a tunnel is
  registered while the table is not empty: \<open>awaiting_head_unsent\<close>, \<open>timer_returns\<close>.)
\<close>

theorem onTimeout_completes_and_removes:
  assumes "map_of (pendingRequests s) rid = Some p"
  shows "(\<not> responseStarted p \<and> \<not> headersSent (responses s (res p)) \<longrightarrow>
            statusCode (responses (stateOf (onTimeout rid s)) (res p)) = 504
          \<and> resBody (responses (stateOf (onTimeout rid s)) (res p)) =
              resBody (responses s (res p)) @
                [JsonBody [(''error'', ''Request timeout''),
                           (''message'', ''The tunnel client did not respond in time'')]]
          \<and> finished (responses (stateOf (onTimeout rid s)) (res p)))
       \<and> (responseStarted p \<longrightarrow>
            statusCode (responses (stateOf (onTimeout rid s)) (res p)) =
              statusCode (responses s (res p))
          \<and> resBody (responses (stateOf (onTimeout rid s)) (res p)) =
              resBody (responses s (res p))
          \<and> finished (responses (stateOf (onTimeout rid s)) (res p)))
       \<and> (responseStarted p \<or> \<not> headersSent (responses s (res p)) \<longrightarrow>
            map_of (pendingRequests (stateOf (onTimeout rid s))) =
              (map_of (pendingRequests s))(rid := None)
          \<and> onTimeout rid (stateOf (onTimeout rid s)) = Inr (stateOf (onTimeout rid s))
          \<and> (activeTunnel s \<noteq> None \<longrightarrow>
               onTimeout rid s = Inr (stateOf (onTimeout rid s))))"
  using assms
  by (auto simp: onTimeout_def andThen_def statusJson_def res_json_def res_status_def
        res_end_def setRes_def deletePending_def removeListener_def stateOf_def
        requestTimeout_def Let_def AList.delete_conv'
      split: option.splits sum.splits if_splits)

theorem onTimeout_completes_and_removes_witness:
  "statusCode (responses (stateOf (onTimeout ''req_1'' (inFlight False newResponse))) 0) = 504
   \<and> finished (responses (stateOf (onTimeout ''req_1'' (inFlight False newResponse))) 0)
   \<and> map_of (pendingRequests (stateOf (onTimeout ''req_1'' (inFlight False newResponse))))
        ''req_1'' = None
   \<and> statusCode (responses (stateOf (onTimeout ''req_1''
        (inFlight True (res_write ''hi'' newResponse)))) 0) = 200
   \<and> finished (responses (stateOf (onTimeout ''req_1''
        (inFlight True (res_write ''hi'' newResponse)))) 0)"
proof -
  let ?p = "\<lparr>res = 0, responseStarted = False\<rparr>"
  let ?q = "\<lparr>res = 0, responseStarted = True\<rparr>"
  have h1: "map_of (pendingRequests (inFlight False newResponse)) ''req_1'' = Some ?p"
    by (simp add: inFlight_def)
  have h2: "map_of (pendingRequests (inFlight True (res_write ''hi'' newResponse))) ''req_1''
      = Some ?q"
    by (simp add: inFlight_def)
  have a: "\<not> responseStarted ?p
      \<and> \<not> headersSent (responses (inFlight False newResponse) (res ?p))"
    by (simp add: inFlight_def newResponse_def)
  have b: "responseStarted ?q" by simp
  have c: "statusCode (responses (inFlight True (res_write ''hi'' newResponse)) (res ?q)) = 200"
    by (simp add: inFlight_def newResponse_def res_write_def)
  from onTimeout_completes_and_removes [OF h1] a
    onTimeout_completes_and_removes [OF h2] b c
  show ?thesis by simp
qed

section \<open>The request body on the channel\<close>

lemma chunk_frame_ignored:
  "m_direction (chunkMessage enc rid chunk) = None
   \<and> onMessage dec localPort (Frame (chunkMessage enc rid chunk)) c = c"
  by (simp add: chunkMessage_def emptyMessage_def onMessage_def)

text \<open>
  C1. The claim is that every fragment of a public request's body goes out as a \<open>chunk\<close>
  frame with \<open>direction = request\<close>, so that the client writes it to the local request.
  Here the edge forwards \<open>upload\<close> with a tunnel open, the body arrives as the one
  fragment \<open>abc\<close> and ends, and the client receives the frames the edge sent. The
  \<open>chunk\<close> frame has no \<open>direction\<close> (the \<open>end\<close> frame has it); the client ignores
  the frame, and ends the local request with nothing written to it.
\<close>

theorem request_body_never_reaches_local_request:
  "(let s = onReqEnd ''req_1'' (onReqData enc ''req_1'' ''abc''
              (stateOf (forwardRequest upload 0 ''req_1'' edge0)));
        frames = sent (sockets s 1);
        c = deliver dec 3000 frames client0
    in map m_type frames = [''request'', ''chunk'', ''end'']
     \<and> map m_data frames = [None, Some (enc ''abc''), None]
     \<and> map m_direction frames = [None, None, Some ''request'']
     \<and> map m_hasBody frames = [True, False, False]
     \<and> map l_written (localRequests c) = [[]]
     \<and> map l_ended (localRequests c) = [True])"
  by code_simp

section \<open>The channel closes\<close>

text \<open>
  The two states used below are reached from \<open>edge0\<close>: \<open>forwardRequest\<close>, then a
  \<open>response\<close> frame with \<open>streaming\<close> set gives the first; a \<open>chunk\<close> frame after it
  gives the second.
\<close>

lemma inFlight_reached:
  "pendingRequests (stateOf (responseHandler dec ''req_1''
       (Frame (emptyMessage\<lparr>m_type := ''response'', m_id := Some ''req_1'',
          m_status := Some 200, m_streaming := True\<rparr>))
       (stateOf (forwardRequest upload 0 ''req_1'' edge0)))) =
     pendingRequests (inFlight True (res_status 200 newResponse))
   \<and> responses (stateOf (responseHandler dec ''req_1''
       (Frame (emptyMessage\<lparr>m_type := ''response'', m_id := Some ''req_1'',
          m_status := Some 200, m_streaming := True\<rparr>))
       (stateOf (forwardRequest upload 0 ''req_1'' edge0)))) 0 =
     responses (inFlight True (res_status 200 newResponse)) 0
   \<and> activeTunnel (stateOf (responseHandler dec ''req_1''
       (Frame (emptyMessage\<lparr>m_type := ''response'', m_id := Some ''req_1'',
          m_status := Some 200, m_streaming := True\<rparr>))
       (stateOf (forwardRequest upload 0 ''req_1'' edge0)))) =
     activeTunnel (inFlight True (res_status 200 newResponse))"
  by code_simp

lemma inFlight_written_reached:
  "pendingRequests (stateOf (responseHandler id ''req_1''
       (Frame (emptyMessage\<lparr>m_type := ''chunk'', m_id := Some ''req_1'',
          m_data := Some ''hi''\<rparr>))
       (inFlight True (res_status 200 newResponse)))) =
     pendingRequests (inFlight True (res_write ''hi'' newResponse))
   \<and> responses (stateOf (responseHandler id ''req_1''
       (Frame (emptyMessage\<lparr>m_type := ''chunk'', m_id := Some ''req_1'',
          m_data := Some ''hi''\<rparr>))
       (inFlight True (res_status 200 newResponse)))) 0 =
     responses (inFlight True (res_write ''hi'' newResponse)) 0"
  by code_simp

text \<open>
  C6. The claim is that, when the channel closes, a request whose response has started
  has its response closed with no new status written, and that the table is emptied in
  every case. The close listener does not read \<open>responseStarted\<close>. With the response
  started and its head not yet sent, it assigns 503 and sends the error body. With body
  bytes already written, \<open>json\<close> throws out of the listener: 503 is assigned, the response
  is not finished, and the table keeps its record.
\<close>

theorem onClose_ignores_responseStarted:
  "statusCode (responses (stateOf (onClose 1 (inFlight True (res_status 200 newResponse)))) 0)
     = 503
   \<and> resBody (responses (stateOf (onClose 1 (inFlight True (res_status 200 newResponse)))) 0)
     = [JsonBody [(''error'', ''Tunnel disconnected''),
                  (''message'', ''The tunnel connection has been lost'')]]
   \<and> isl (onClose 1 (inFlight True (res_write ''hi'' newResponse)))
   \<and> pendingRequests (stateOf (onClose 1 (inFlight True (res_write ''hi'' newResponse))))
     = [(''req_1'', \<lparr>res = 0, responseStarted = True\<rparr>)]
   \<and> statusCode (responses (stateOf (onClose 1 (inFlight True (res_write ''hi'' newResponse)))) 0)
     = 503
   \<and> \<not> finished (responses (stateOf (onClose 1 (inFlight True (res_write ''hi'' newResponse)))) 0)"
  by (simp add: onClose_def inFlight_def edge0_def andThen_def statusJson_def res_json_def
      res_status_def res_write_def newResponse_def setRes_def stateOf_def
      tunnelDisconnected_def)

section \<open>A chunk before the response head\<close>

text \<open>
  One call of the record's \<open>responseHandler\<close> with a \<open>chunk\<close> frame, while no response
  has started and nothing has been sent: status 200, the decoded bytes appended, the
  record kept and marked as started.
\<close>

lemma chunk_handler_starts_streaming:
  assumes "map_of (pendingRequests s) rid = Some p"
    and "\<not> responseStarted p"
    and "\<not> headersSent (responses s (res p))"
    and "\<not> finished (responses s (res p))"
    and "m_type m = ''chunk''"
    and "m_id m = Some rid"
    and "m_data m = Some d"
  shows "\<exists>s'. responseHandler dec rid (Frame m) s = Inr s'
    \<and> statusCode (responses s' (res p)) = 200
    \<and> resBody (responses s' (res p)) = resBody (responses s (res p)) @ [Bytes (dec d)]
    \<and> headersSent (responses s' (res p))
    \<and> \<not> finished (responses s' (res p))
    \<and> map_of (pendingRequests s') =
        (map_of (pendingRequests s))(rid \<mapsto> p\<lparr>responseStarted := True\<rparr>)"
  using assms
  by (auto simp: responseHandler_def tryBlock_def onChunkFrame_def setStarted_def setRes_def
      res_status_def res_write_def Let_def AList.map_of_map_entry)

lemma started_chunk_appends:
  assumes "pendingRequests s = [(rid, \<lparr>res = h, responseStarted = True\<rparr>)]"
    and "\<not> finished (responses s h)"
    and "m_type m = ''chunk''" and "m_id m = Some rid" and "m_data m = Some d"
  shows "\<exists>s'. responseHandler dec rid (Frame m) s = Inr s'
      \<and> activeTunnel s' = activeTunnel s
      \<and> sockets s' = sockets s
      \<and> pendingRequests s' = pendingRequests s
      \<and> responses s' h =
          (responses s h)\<lparr>headersSent := True,
            resBody := resBody (responses s h) @ [Bytes (dec d)]\<rparr>"
  using assms
  by (simp add: responseHandler_def tryBlock_def onChunkFrame_def Let_def res_write_def
      setRes_def)

lemma emit_chunk_nested:
  "\<exists>s'. emitMessage (Suc n) dec now 1 (Frame (earlyChunk d)) (inFlight False newResponse) = Inr s'
      \<and> activeTunnel s' = Some \<lparr>ws = 1, port = 3000, registeredAt = 0\<rparr>
      \<and> readyState (sockets s' 1) = 1
      \<and> pendingRequests s' = [(''req_1'', \<lparr>res = 0, responseStarted = True\<rparr>)]
      \<and> responses s' 0 =
          newResponse\<lparr>statusCode := 200, headersSent := True,
            resBody := replicate (Suc n) (Bytes (dec d))\<rparr>"
proof (induction n)
  case 0
  show ?case
    by (simp add: earlyChunk_def emptyMessage_def inFlight_def edge0_def handlersOf_def andThen_def
        ws_send_def Let_def responseHandler_def tryBlock_def onChunkFrame_def setStarted_def
        setRes_def res_status_def res_write_def newResponse_def)
next
  case (Suc n)
  then obtain s1 where
    e: "emitMessage (Suc n) dec now 1 (Frame (earlyChunk d)) (inFlight False newResponse) = Inr s1"
    and t: "activeTunnel s1 = Some \<lparr>ws = 1, port = 3000, registeredAt = 0\<rparr>"
    and k: "readyState (sockets s1 1) = 1"
    and p: "pendingRequests s1 = [(''req_1'', \<lparr>res = 0, responseStarted = True\<rparr>)]"
    and r: "responses s1 0 =
          newResponse\<lparr>statusCode := 200, headersSent := True,
            resBody := replicate (Suc n) (Bytes (dec d))\<rparr>"
    by blast
  have nf: "\<not> finished (responses s1 0)" using r by (simp add: newResponse_def)
  have m: "m_type (earlyChunk d) = ''chunk''" "m_id (earlyChunk d) = Some ''req_1''"
    "m_data (earlyChunk d) = Some d"
    by (simp_all add: earlyChunk_def)
  from started_chunk_appends [OF p nf m, of dec] obtain s2 where
    h: "responseHandler dec ''req_1'' (Frame (earlyChunk d)) s1 = Inr s2"
    and t2: "activeTunnel s2 = activeTunnel s1" and k2: "sockets s2 = sockets s1"
    and p2: "pendingRequests s2 = pendingRequests s1"
    and r2: "responses s2 0 = (responses s1 0)\<lparr>headersSent := True,
            resBody := resBody (responses s1 0) @ [Bytes (dec d)]\<rparr>"
    by blast
  have hs: "handlersOf 1 (inFlight False newResponse) = [''req_1'']"
    by (simp add: handlersOf_def inFlight_def edge0_def)
  have "emitMessage (Suc (Suc n)) dec now 1 (Frame (earlyChunk d)) (inFlight False newResponse) =
      andThen
        (case emitMessage (Suc n) dec now 1 (Frame (earlyChunk d)) (inFlight False newResponse) of
           Inl (e, s1) \<Rightarrow> ws_send 1 (errorFrame e) s1
         | Inr s1 \<Rightarrow> Inr s1)
        (runHandlers dec [''req_1''] (Frame (earlyChunk d)))"
    using hs m(1) by (subst emitMessage.simps(2)) (simp del: emitMessage.simps)
  with e h
  have "emitMessage (Suc (Suc n)) dec now 1 (Frame (earlyChunk d)) (inFlight False newResponse) = Inr s2"
    by (simp add: andThen_def del: emitMessage.simps)
  moreover have "responses s2 0 = newResponse\<lparr>statusCode := 200, headersSent := True,
            resBody := replicate (Suc (Suc n)) (Bytes (dec d))\<rparr>"
    using r2 r by (simp add: replicate_append_same)
  ultimately show ?case using t t2 k k2 p p2 by simp
qed

text \<open>
  C7. The claim is that, on receipt of a \<open>chunk\<close> frame for a request that awaits its
  response head, the edge sets status 200, writes the decoded bytes to the public
  response and keeps the record. A received frame is the socket's \<open>message\<close> event, and
  the listener of \<open>server.js\<close> emits the event again on the same socket. With room for
  \<open>Suc n\<close> nested \<open>emit\<close>s the innermost call fails, and the record's handler runs once
  at each of the \<open>Suc n\<close> levels: the status is 200 and the record is kept, but the bytes
  are in the body \<open>Suc n\<close> times, three times for a depth of three.
\<close>

theorem chunk_frame_written_at_every_nesting_level:
  "\<not> isl (emitMessage (Suc n) dec now 1 (Frame (earlyChunk d)) (inFlight False newResponse))
   \<and> statusCode (responses (stateOf (emitMessage (Suc n) dec now 1 (Frame (earlyChunk d))
        (inFlight False newResponse))) 0) = 200
   \<and> resBody (responses (stateOf (emitMessage (Suc n) dec now 1 (Frame (earlyChunk d))
        (inFlight False newResponse))) 0) = replicate (Suc n) (Bytes (dec d))
   \<and> pendingRequests (stateOf (emitMessage (Suc n) dec now 1 (Frame (earlyChunk d))
        (inFlight False newResponse))) = [(''req_1'', \<lparr>res = 0, responseStarted = True\<rparr>)]
   \<and> resBody (responses (stateOf (emitMessage 3 dec now 1 (Frame (earlyChunk d))
        (inFlight False newResponse))) 0) = [Bytes (dec d), Bytes (dec d), Bytes (dec d)]"
proof -
  from emit_chunk_nested [of n dec now d] obtain s1 where
    "emitMessage (Suc n) dec now 1 (Frame (earlyChunk d)) (inFlight False newResponse) = Inr s1"
    and "pendingRequests s1 = [(''req_1'', \<lparr>res = 0, responseStarted = True\<rparr>)]"
    and "responses s1 0 = newResponse\<lparr>statusCode := 200, headersSent := True,
            resBody := replicate (Suc n) (Bytes (dec d))\<rparr>"
    by blast
  then have gen: "\<not> isl (emitMessage (Suc n) dec now 1 (Frame (earlyChunk d))
        (inFlight False newResponse))
   \<and> statusCode (responses (stateOf (emitMessage (Suc n) dec now 1 (Frame (earlyChunk d))
        (inFlight False newResponse))) 0) = 200
   \<and> resBody (responses (stateOf (emitMessage (Suc n) dec now 1 (Frame (earlyChunk d))
        (inFlight False newResponse))) 0) = replicate (Suc n) (Bytes (dec d))
   \<and> pendingRequests (stateOf (emitMessage (Suc n) dec now 1 (Frame (earlyChunk d))
        (inFlight False newResponse))) = [(''req_1'', \<lparr>res = 0, responseStarted = True\<rparr>)]"
    by (simp add: stateOf_def del: emitMessage.simps)
  from emit_chunk_nested [of 2 dec now d] obtain s3 where
    "emitMessage (Suc 2) dec now 1 (Frame (earlyChunk d)) (inFlight False newResponse) = Inr s3"
    and "responses s3 0 = newResponse\<lparr>statusCode := 200, headersSent := True,
            resBody := replicate (Suc 2) (Bytes (dec d))\<rparr>"
    by blast
  then have three: "resBody (responses (stateOf (emitMessage 3 dec now 1 (Frame (earlyChunk d))
        (inFlight False newResponse))) 0) = [Bytes (dec d), Bytes (dec d), Bytes (dec d)]"
    by (simp add: stateOf_def numeral_3_eq_3 del: emitMessage.simps)
  from gen three show ?thesis by blast
qed

section \<open>Status\<close>

text \<open>
  C8, as stated, fails in two points. The object that \<open>getStatus\<close> returns has no field
  \<open>uptime_ms\<close>: its fields are \<open>connected\<close>, \<open>port\<close> and \<open>uptime\<close>. And its port is
  not always the declared port: a registration that declares port 0 is accepted, and
  stored and reported with port 3000.
\<close>

theorem getStatus_port_zero_counterexample:
  "map_of (getStatus 5000 edge0) ''uptime_ms'' = None
   \<and> m_port (emptyMessage\<lparr>m_type := ''register'', m_port := Some 0\<rparr>) = Some 0
   \<and> \<not> isl (registerTunnel 2 (emptyMessage\<lparr>m_type := ''register'', m_port := Some 0\<rparr>)
          100 (edge0\<lparr>activeTunnel := None\<rparr>))
   \<and> map_of (getStatus 5000 (snd (projr
          (registerTunnel 2 (emptyMessage\<lparr>m_type := ''register'', m_port := Some 0\<rparr>)
             100 (edge0\<lparr>activeTunnel := None\<rparr>))))) ''port'' = Some (JNum 3000)"
  by code_simp

text \<open>
  C8, amended. In every state \<open>getStatus\<close> returns an object with the fields
  \<open>connected\<close>, \<open>port\<close> and \<open>uptime\<close>. With a tunnel registered, \<open>connected\<close> says
  whether the registered socket is open, \<open>port\<close> is the port of the registration and
  \<open>uptime\<close> is the time in milliseconds since the registration was installed. With none,
  \<open>connected\<close> is false and \<open>port\<close> and \<open>uptime\<close> are null. The port of a
  registration is the declared port, or 3000 when the declared port is absent or 0.
\<close>

theorem getStatus_reports_registration:
  "map fst (getStatus now s) = [''connected'', ''port'', ''uptime'']
   \<and> (activeTunnel s = Some t \<longrightarrow>
        getStatus now s =
          [(''connected'', JBool (readyState (sockets s (ws t)) = 1)),
           (''port'', JNum (int (port t))),
           (''uptime'', JNum (now - registeredAt t))])
   \<and> (activeTunnel s = None \<longrightarrow>
        getStatus now s =
          [(''connected'', JBool False), (''port'', JNull), (''uptime'', JNull)])
   \<and> (registerTunnel w registration t0 s = Inr (t, s') \<longrightarrow>
        getStatus now s' =
          [(''connected'', JBool (readyState (sockets s w) = 1)),
           (''port'',
            JNum (case m_port registration of
                    None \<Rightarrow> 3000
                  | Some p \<Rightarrow> if p = 0 then 3000 else int p)),
           (''uptime'', JNum (now - t0))])"
  by (auto simp: getStatus_def isActive_def registerTunnel_def Let_def split: option.splits)


theorem getStatus_reports_registration_witness:
  "getStatus 5000 edge0 =
     [(''connected'', JBool True), (''port'', JNum 3000), (''uptime'', JNum 5000)]
   \<and> getStatus 5000 (edge0\<lparr>activeTunnel := None\<rparr>) =
     [(''connected'', JBool False), (''port'', JNull), (''uptime'', JNull)]
   \<and> (\<exists>t s'. registerTunnel 2 (emptyMessage\<lparr>m_type := ''register'', m_port := Some 8080\<rparr>)
         100 (edge0\<lparr>activeTunnel := None\<rparr>) = Inr (t, s')
       \<and> getStatus 5000 s' =
           [(''connected'', JBool True), (''port'', JNum 8080), (''uptime'', JNum 4900)])"
proof -
  let ?t = "\<lparr>ws = 1, port = 3000, registeredAt = 0\<rparr>"
  let ?e = "edge0\<lparr>activeTunnel := None\<rparr>"
  let ?r = "emptyMessage\<lparr>m_type := ''register'', m_port := Some 8080\<rparr>"
  let ?u = "\<lparr>ws = 2, port = 8080, registeredAt = 100\<rparr>"
  have a: "activeTunnel edge0 = Some ?t" by (simp add: edge0_def)
  have b: "readyState (sockets edge0 (ws ?t)) = 1" by (simp add: edge0_def)
  have b': "readyState (sockets ?e 2) = 1" by (simp add: edge0_def)
  have c: "activeTunnel ?e = None" by simp
  have d: "registerTunnel 2 ?r 100 ?e = Inr (?u, ?e\<lparr>activeTunnel := Some ?u\<rparr>)"
    by (simp add: registerTunnel_def emptyMessage_def Let_def)
  have p: "m_port ?r = Some 8080" by simp
  from getStatus_reports_registration [of 5000 edge0 ?t] a b
  have one: "getStatus 5000 edge0 =
      [(''connected'', JBool True), (''port'', JNum 3000), (''uptime'', JNum 5000)]"
    by simp
  from getStatus_reports_registration [of 5000 ?e] c
  have two: "getStatus 5000 ?e =
      [(''connected'', JBool False), (''port'', JNull), (''uptime'', JNull)]"
    by simp
  from getStatus_reports_registration
    [of 5000 ?e ?u 2 ?r 100 "?e\<lparr>activeTunnel := Some ?u\<rparr>"] d p b'
  have three: "getStatus 5000 (?e\<lparr>activeTunnel := Some ?u\<rparr>) =
      [(''connected'', JBool True), (''port'', JNum 8080), (''uptime'', JNum 4900)]"
    by simp
  from one two three d show ?thesis by blast
qed

section \<open>The configuration file: init and read\<close>












text \<open>Every string is blanks, a core with no blank at either end, and blanks.\<close>

lemma blank_core_blank:
  "\<exists>pre core post. s = pre @ core @ post
     \<and> (\<forall>c \<in> set pre. isSpace c) \<and> (\<forall>c \<in> set post. isSpace c)
     \<and> (core = [] \<or> (\<not> isSpace (hd core) \<and> \<not> isSpace (last core)))"
proof -
  let ?pre = "takeWhile isSpace s"
  let ?r = "dropWhile isSpace s"
  let ?post = "rev (takeWhile isSpace (rev ?r))"
  let ?core = "rev (dropWhile isSpace (rev ?r))"
  have r: "?r = ?core @ ?post"
    by (metis rev_append rev_rev_ident takeWhile_dropWhile_id)
  have "s = ?pre @ ?core @ ?post" using r by (metis takeWhile_dropWhile_id)
  moreover have "\<forall>c \<in> set ?pre. isSpace c" by (auto dest: set_takeWhileD)
  moreover have "\<forall>c \<in> set ?post. isSpace c" by (auto dest: set_takeWhileD)
  moreover have "?core = [] \<or> (\<not> isSpace (hd ?core) \<and> \<not> isSpace (last ?core))"
  proof (cases "?core = []")
    case True
    then show ?thesis by simp
  next
    case False
    then have ne: "dropWhile isSpace (rev ?r) \<noteq> []" by simp
    then have l: "\<not> isSpace (last ?core)"
      by (simp add: last_rev hd_dropWhile)
    from False r have rne: "?r \<noteq> []" by (metis append_is_Nil_conv)
    then have "\<not> isSpace (hd ?r)" by (simp add: hd_dropWhile)
    moreover from False r have "hd ?r = hd ?core" by (metis hd_append2)
    ultimately show ?thesis using l by simp
  qed
  ultimately show ?thesis by blast
qed





section \<open>A request frame with an inline body\<close>

text \<open>
  C10, as stated, fails for a \<open>request\<close> frame whose \<open>body\<close> field is the empty string
  and whose \<open>hasBody\<close> is set: \<open>if (body)\<close> is false, the entry stays in the table, the
  local request is not ended, and a later \<open>chunk\<close> frame with \<open>direction = request\<close> is
  written to it.
\<close>

theorem empty_inline_body_keeps_entry_counterexample:
  "map_of (pendingLocal (onMessage id 3000
       (Frame (emptyMessage\<lparr>m_type := ''request'', m_id := Some ''req_1'',
           m_hasBody := True, m_body := Some []\<rparr>)) client0)) (Some ''req_1'') = Some 0
   \<and> map l_ended (localRequests (onMessage id 3000
       (Frame (emptyMessage\<lparr>m_type := ''request'', m_id := Some ''req_1'',
           m_hasBody := True, m_body := Some []\<rparr>)) client0)) = [False]
   \<and> map l_written (localRequests (onMessage id 3000
       (Frame (emptyMessage\<lparr>m_type := ''chunk'', m_id := Some ''req_1'',
           m_direction := Some ''request'', m_data := Some ''eA==''\<rparr>))
       (onMessage id 3000
       (Frame (emptyMessage\<lparr>m_type := ''request'', m_id := Some ''req_1'',
           m_hasBody := True, m_body := Some []\<rparr>)) client0))) = [[''eA=='']]"
  by code_simp

text \<open>
  C10, amended. For every \<open>request\<close> frame with a non-empty inline \<open>body\<close>, whatever
  its \<open>hasBody\<close>: the client creates the local request, writes the decoded body to it
  and ends it; the table has no entry for the frame's id afterwards; and every later
  \<open>chunk\<close> or \<open>end\<close> frame with \<open>direction = request\<close> and that id leaves the client as
  it is.
\<close>

theorem inline_body_ends_local_request:
  assumes "m_body m = Some b" and "b \<noteq> []"
  shows "localRequests (forwardToLocal dec m localPort c) =
           localRequests c @
             [\<lparr>l_port = localPort, l_method = m_method m, l_path = m_url m,
               l_headers = (case m_headers m of None \<Rightarrow> [] | Some hs \<Rightarrow> hs),
               l_written = [dec b], l_ended = True\<rparr>]
       \<and> map_of (pendingLocal (forwardToLocal dec m localPort c)) (m_id m) = None
       \<and> (m_type m = ''request'' \<longrightarrow>
            onMessage dec localPort (Frame m) c = forwardToLocal dec m localPort c)
       \<and> (\<forall>f. m_id f = m_id m \<and> m_direction f = Some ''request''
               \<and> (m_type f = ''chunk'' \<or> m_type f = ''end'') \<longrightarrow>
             onMessage dec localPort (Frame f) (forwardToLocal dec m localPort c) =
               forwardToLocal dec m localPort c)"
proof -
  let ?c' = "forwardToLocal dec m localPort c"
  have gone: "map_of (pendingLocal ?c') (m_id m) = None"
    using assms by (simp add: forwardToLocal_def Let_def forgetLocal_def onLocal_def AList.delete_conv')
  have reqs: "localRequests ?c' = localRequests c @
             [\<lparr>l_port = localPort, l_method = m_method m, l_path = m_url m,
               l_headers = (case m_headers m of None \<Rightarrow> [] | Some hs \<Rightarrow> hs),
               l_written = [dec b], l_ended = True\<rparr>]"
    using assms by (simp add: forwardToLocal_def Let_def forgetLocal_def onLocal_def l_write_def l_end_def)
  have disp: "m_type m = ''request'' \<longrightarrow> onMessage dec localPort (Frame m) c = ?c'"
    by (simp add: onMessage_def)
  have drop: "\<forall>f. m_id f = m_id m \<and> m_direction f = Some ''request''
               \<and> (m_type f = ''chunk'' \<or> m_type f = ''end'') \<longrightarrow>
             onMessage dec localPort (Frame f) ?c' = ?c'"
    using gone by (auto simp: onMessage_def handleRequestChunk_def handleRequestEnd_def)
  from reqs gone disp drop show ?thesis by blast
qed

theorem inline_body_ends_local_request_witness:
  "localRequests (onMessage id 3000
       (Frame (emptyMessage\<lparr>m_type := ''request'', m_id := Some ''req_1'',
           m_hasBody := True, m_body := Some ''aGk=''\<rparr>)) client0) =
     [\<lparr>l_port = 3000, l_method = None, l_path = None, l_headers = [],
       l_written = [''aGk=''], l_ended = True\<rparr>]
   \<and> map_of (pendingLocal (onMessage id 3000
       (Frame (emptyMessage\<lparr>m_type := ''request'', m_id := Some ''req_1'',
           m_hasBody := True, m_body := Some ''aGk=''\<rparr>)) client0)) (Some ''req_1'') = None
   \<and> onMessage id 3000
       (Frame (emptyMessage\<lparr>m_type := ''chunk'', m_id := Some ''req_1'',
           m_direction := Some ''request'', m_data := Some ''eA==''\<rparr>))
       (onMessage id 3000
         (Frame (emptyMessage\<lparr>m_type := ''request'', m_id := Some ''req_1'',
           m_hasBody := True, m_body := Some ''aGk=''\<rparr>)) client0) =
     onMessage id 3000
         (Frame (emptyMessage\<lparr>m_type := ''request'', m_id := Some ''req_1'',
           m_hasBody := True, m_body := Some ''aGk=''\<rparr>)) client0"
proof -
  let ?m = "emptyMessage\<lparr>m_type := ''request'', m_id := Some ''req_1'',
           m_hasBody := True, m_body := Some ''aGk=''\<rparr>"
  let ?f = "emptyMessage\<lparr>m_type := ''chunk'', m_id := Some ''req_1'',
           m_direction := Some ''request'', m_data := Some ''eA==''\<rparr>"
  have h1: "m_body ?m = Some ''aGk=''" by simp
  have h2: "''aGk='' \<noteq> []" by simp
  have t: "m_type ?m = ''request''" by simp
  have g: "m_id ?f = m_id ?m \<and> m_direction ?f = Some ''request''
      \<and> (m_type ?f = ''chunk'' \<or> m_type ?f = ''end'')" by simp
  have i: "m_id ?m = Some ''req_1''" by simp
  have v: "localRequests client0 = [] \<and> m_method ?m = None \<and> m_url ?m = None
      \<and> m_headers ?m = None \<and> id ''aGk='' = ''aGk=''"
    by (simp add: client0_def emptyMessage_def)
  note T = inline_body_ends_local_request [OF h1 h2, of id 3000 client0]
  from T t have eq: "onMessage id 3000 (Frame ?m) client0 = forwardToLocal id ?m 3000 client0"
    by blast
  from T g have dr: "onMessage id 3000 (Frame ?f) (forwardToLocal id ?m 3000 client0)
      = forwardToLocal id ?m 3000 client0" by blast
  from T v have lr: "localRequests (forwardToLocal id ?m 3000 client0) =
     [\<lparr>l_port = 3000, l_method = None, l_path = None, l_headers = [],
       l_written = [''aGk=''], l_ended = True\<rparr>]" by simp
  from T i have pn: "map_of (pendingLocal (forwardToLocal id ?m 3000 client0)) (Some ''req_1'') = None"
    by simp
  from eq dr lr pn show ?thesis by simp
qed

section \<open>Invariants of the edge\<close>

lemma setRes_simps [simp]:
  "pendingRequests (setRes h r s) = pendingRequests s"
  "responses (setRes h r s) = (responses s)(h := r)"
  "activeTunnel (setRes h r s) = activeTunnel s"
  by (simp_all add: setRes_def)

lemma deletePending_simps [simp]:
  "map_of (pendingRequests (deletePending rid s)) = (map_of (pendingRequests s))(rid := None)"
  "responses (deletePending rid s) = responses s"
  "activeTunnel (deletePending rid s) = activeTunnel s"
  by (simp_all add: deletePending_def AList.delete_conv')

lemma setStarted_simps [simp]:
  "map_of (pendingRequests (setStarted rid s)) =
     (map_of (pendingRequests s))
       (rid := (case map_of (pendingRequests s) rid of None \<Rightarrow> None
                | Some p \<Rightarrow> Some (p\<lparr>responseStarted := True\<rparr>)))"
  "responses (setStarted rid s) = responses s"
  "activeTunnel (setStarted rid s) = activeTunnel s"
  by (simp_all add: setStarted_def AList.map_of_map_entry)

lemma edgeInv_delete: "edgeInv s \<Longrightarrow> edgeInv (deletePending rid s)"
  by (auto simp: edgeInv_def cleanAwaiting_def ownResponse_def sentBeforeFinished_def split: if_splits)

lemma edgeInv_setStarted: "edgeInv s \<Longrightarrow> edgeInv (setStarted rid s)"
  by (auto simp: edgeInv_def cleanAwaiting_def ownResponse_def sentBeforeFinished_def
      split: if_splits option.splits)

text \<open>
  The response of a record may change as long as it stays unsent while the record is
  not started.
\<close>

lemma edgeInv_setRes:
  assumes i: "edgeInv s" and p: "map_of (pendingRequests s) rid = Some p"
    and f: "finished r \<longrightarrow> headersSent r"
    and c: "responseStarted p \<or> (\<not> headersSent r \<and> \<not> finished r)"
  shows "edgeInv (setRes (res p) r s)"
proof -
  from i have ca: "cleanAwaiting s" and ow: "ownResponse s" and sf: "sentBeforeFinished s"
    by (simp_all add: edgeInv_def)
  have "cleanAwaiting (setRes (res p) r s)"
    unfolding cleanAwaiting_def
  proof (intro allI impI)
    fix rida pa
    assume a: "map_of (pendingRequests (setRes (res p) r s)) rida = Some pa"
    then have a': "map_of (pendingRequests s) rida = Some pa" by simp
    show "responseStarted pa \<or>
        (\<not> headersSent (responses (setRes (res p) r s) (res pa)) \<and>
         \<not> finished (responses (setRes (res p) r s) (res pa)))"
    proof (cases "res pa = res p")
      case True
      with ow a' p have "rida = rid" unfolding ownResponse_def by blast
      with a' p have "pa = p" by simp
      with c show ?thesis by simp
    next
      case False
      with ca a' show ?thesis unfolding cleanAwaiting_def by simp
    qed
  qed
  moreover from ow have "ownResponse (setRes (res p) r s)"
    by (simp add: ownResponse_def)
  moreover from sf f have "sentBeforeFinished (setRes (res p) r s)"
    by (simp add: sentBeforeFinished_def)
  ultimately show ?thesis by (simp add: edgeInv_def)
qed

lemma edgeInv_setRes_delete:
  assumes i: "edgeInv s" and p: "map_of (pendingRequests s) rid = Some p"
    and f: "finished r \<longrightarrow> headersSent r"
  shows "edgeInv (deletePending rid (setRes (res p) r s))"
proof -
  from i have ca: "cleanAwaiting s" and ow: "ownResponse s" and sf: "sentBeforeFinished s"
    by (simp_all add: edgeInv_def)
  have "cleanAwaiting (deletePending rid (setRes (res p) r s))"
    unfolding cleanAwaiting_def
  proof (intro allI impI)
    fix rida pa
    assume a: "map_of (pendingRequests (deletePending rid (setRes (res p) r s))) rida = Some pa"
    then have ne: "rida \<noteq> rid" and a': "map_of (pendingRequests s) rida = Some pa"
      by (auto split: if_splits)
    from ow a' p ne have "res pa \<noteq> res p" unfolding ownResponse_def by blast
    with ca a' show "responseStarted pa \<or>
        (\<not> headersSent (responses (deletePending rid (setRes (res p) r s)) (res pa)) \<and>
         \<not> finished (responses (deletePending rid (setRes (res p) r s)) (res pa)))"
      unfolding cleanAwaiting_def by simp
  qed
  moreover from ow have "ownResponse (deletePending rid (setRes (res p) r s))"
    by (auto simp: ownResponse_def split: if_splits)
  moreover from sf f have "sentBeforeFinished (deletePending rid (setRes (res p) r s))"
    by (simp add: sentBeforeFinished_def)
  ultimately show ?thesis by (simp add: edgeInv_def)
qed

lemma edgeInv_cong:
  "pendingRequests s' = pendingRequests s \<Longrightarrow> responses s' = responses s \<Longrightarrow> edgeInv s' = edgeInv s"
  by (simp add: edgeInv_def cleanAwaiting_def ownResponse_def sentBeforeFinished_def)

lemma ws_send_frame [simp]:
  "pendingRequests (stateOf (ws_send h m s)) = pendingRequests s"
  "responses (stateOf (ws_send h m s)) = responses s"
  by (simp_all add: ws_send_def stateOf_def Let_def)

lemma res_end_flags: "finished (res_end r) \<and> headersSent (res_end r) \<or> res_end r = r"
  by (simp add: res_end_def)

lemma res_end_ok: "(finished r \<longrightarrow> headersSent r) \<Longrightarrow> finished (res_end r) \<longrightarrow> headersSent (res_end r)"
  by (simp add: res_end_def)

lemma res_write_ok: "(finished r \<longrightarrow> headersSent r) \<Longrightarrow> finished (res_write c r) \<longrightarrow> headersSent (res_write c r)"
  by (simp add: res_write_def)

lemma res_status_flags [simp]:
  "headersSent (res_status c r) = headersSent r" "finished (res_status c r) = finished r"
  by (simp_all add: res_status_def)

lemma statusJson_Inr:
  assumes "statusJson h code obj s = Inr s'"
  shows "\<exists>r. s' = setRes h r s \<and> headersSent r \<and> finished r"
  using assms by (auto simp: statusJson_def res_json_def Let_def split: if_splits)

lemma statusJson_Inl:
  assumes "statusJson h code obj s = Inl (e, s')"
  shows "s' = setRes h (res_status code (responses s h)) s \<and> headersSent (responses s h)"
  using assms by (auto simp: statusJson_def res_json_def Let_def split: if_splits)

lemma edgeInv_sent: "edgeInv s \<Longrightarrow> finished (responses s h) \<longrightarrow> headersSent (responses s h)"
  by (simp add: edgeInv_def sentBeforeFinished_def)

lemma edgeInv_clean:
  "edgeInv s \<Longrightarrow> map_of (pendingRequests s) rid = Some p \<Longrightarrow> \<not> responseStarted p \<Longrightarrow>
   \<not> headersSent (responses s (res p)) \<and> \<not> finished (responses s (res p))"
  by (auto simp: edgeInv_def cleanAwaiting_def)

lemma removeListener_Inr: "removeListener s = Inr s' \<Longrightarrow> s' = s"
  by (simp add: removeListener_def split: if_splits)

lemma onTimeout_inv:
  assumes i: "edgeInv s" and r: "onTimeout rid s = Inr s'"
  shows "edgeInv s'"
proof (cases "map_of (pendingRequests s) rid")
  case None
  with r have "s' = s" by (simp add: onTimeout_def)
  with i show ?thesis by simp
next
  case (Some p)
  show ?thesis
  proof (cases "responseStarted p")
    case True
    with r Some have "s' = deletePending rid (setRes (res p) (res_end (responses s (res p))) s)"
      by (auto simp: onTimeout_def andThen_def dest: removeListener_Inr)
    with edgeInv_setRes_delete [OF i Some res_end_ok [OF edgeInv_sent [OF i]]] show ?thesis by simp
  next
    case False
    with r Some obtain s1 where a: "statusJson (res p) 504 requestTimeout s = Inr s1"
      and b: "s' = deletePending rid s1"
      by (auto simp: onTimeout_def andThen_def split: sum.splits dest: removeListener_Inr)
    from statusJson_Inr [OF a] obtain r' where "s1 = setRes (res p) r' s" "headersSent r'" by blast
    with b edgeInv_setRes_delete [OF i Some, of r'] show ?thesis by simp
  qed
qed

lemma onReqError_inv:
  assumes i: "edgeInv s" and r: "onReqError rid msg s = Inr s'"
  shows "edgeInv s'"
proof (cases "map_of (pendingRequests s) rid")
  case None
  with r have "s' = s" by (simp add: onReqError_def)
  with i show ?thesis by simp
next
  case (Some p)
  show ?thesis
  proof (cases "responseStarted p")
    case True
    with r Some have "s' = deletePending rid s"
      by (auto simp: onReqError_def andThen_def dest: removeListener_Inr)
    with edgeInv_delete [OF i] show ?thesis by simp
  next
    case False
    with r Some obtain s1 where a: "statusJson (res p) 500
        [(''error'', ''Request stream error''), (''message'', msg)] s = Inr s1"
      and b: "s' = deletePending rid s1"
      by (auto simp: onReqError_def andThen_def split: sum.splits dest: removeListener_Inr)
    from statusJson_Inr [OF a] obtain r' where "s1 = setRes (res p) r' s" "headersSent r'" by blast
    with b edgeInv_setRes_delete [OF i Some, of r'] show ?thesis by simp
  qed
qed

lemma catchBlock_inv:
  assumes i: "edgeInv s" and r: "catchBlock rid e s = Inr s'"
  shows "edgeInv s'"
proof (cases "map_of (pendingRequests s) rid")
  case None
  with r have "s' = s" by (simp add: catchBlock_def)
  with i show ?thesis by simp
next
  case (Some p)
  show ?thesis
  proof (cases "responseStarted p")
    case True
    with r Some have "s' = deletePending rid (setRes (res p) (res_end (responses s (res p))) s)"
      by (auto simp: catchBlock_def andThen_def)
    with edgeInv_setRes_delete [OF i Some res_end_ok [OF edgeInv_sent [OF i]]] show ?thesis by simp
  next
    case False
    with r Some obtain s1 where a: "statusJson (res p) 500
        [(''error'', ''Invalid response from tunnel''), (''message'', errorMessage e)] s = Inr s1"
      and b: "s' = deletePending rid s1"
      by (auto simp: catchBlock_def andThen_def split: sum.splits)
    from statusJson_Inr [OF a] obtain r' where "s1 = setRes (res p) r' s" "headersSent r'" by blast
    with b edgeInv_setRes_delete [OF i Some, of r'] show ?thesis by simp
  qed
qed

text \<open>Under the invariant the catch block does not throw.\<close>

lemma catchBlock_returns:
  assumes i: "edgeInv s"
  shows "\<exists>s'. catchBlock rid e s = Inr s'"
proof (cases "map_of (pendingRequests s) rid")
  case None
  then show ?thesis by (simp add: catchBlock_def)
next
  case (Some p)
  show ?thesis
  proof (cases "responseStarted p")
    case True
    with Some show ?thesis by (simp add: catchBlock_def andThen_def)
  next
    case False
    from edgeInv_clean [OF i Some False] have "\<not> headersSent (responses s (res p))" by simp
    with Some False show ?thesis
      by (simp add: catchBlock_def andThen_def statusJson_def res_json_def Let_def)
  qed
qed

lemma setHeaders_inv:
  assumes "edgeInv s" and "map_of (pendingRequests s) rid = Some p"
  shows "edgeInv (stateOf (setHeaders (res p) hs s))
       \<and> pendingRequests (stateOf (setHeaders (res p) hs s)) = pendingRequests s"
  using assms
proof (induction hs arbitrary: s)
  case Nil
  then show ?case by (simp add: stateOf_def)
next
  case (Cons kv hs)
  obtain k v where kv: "kv = (k, v)" by (cases kv)
  show ?case
  proof (cases "headersSent (responses s (res p))")
    case True
    with kv Cons.prems show ?thesis by (simp add: res_setHeader_def stateOf_def)
  next
    case False
    let ?r = "(responses s (res p))\<lparr>resHeaders :=
        AList.update (toLowerCase k) v (resHeaders (responses s (res p)))\<rparr>"
    have f: "finished ?r \<longrightarrow> headersSent ?r"
      using edgeInv_sent [OF Cons.prems(1), of "res p"] by simp
    have c: "responseStarted p \<or> (\<not> headersSent ?r \<and> \<not> finished ?r)"
      using edgeInv_clean [OF Cons.prems] False by auto
    have i1: "edgeInv (setRes (res p) ?r s)"
      by (rule edgeInv_setRes [OF Cons.prems f c])
    have p1: "map_of (pendingRequests (setRes (res p) ?r s)) rid = Some p"
      using Cons.prems(2) by simp
    from Cons.IH [OF i1 p1] False kv show ?thesis
      by (simp add: res_setHeader_def)
  qed
qed

lemma stateOf_simps [simp]: "stateOf (Inr s) = s" "stateOf (Inl (e, s)) = s"
  by (simp_all add: stateOf_def)

lemma onChunkFrame_inv:
  assumes i: "edgeInv s" and p: "map_of (pendingRequests s) rid = Some p"
  shows "edgeInv (stateOf (onChunkFrame dec rid m p s))"
proof -
  let ?r = "responses s (res p)"
  let ?start = "\<not> responseStarted p \<and> \<not> headersSent ?r"
  let ?s1 = "if ?start then setStarted rid (setRes (res p) (res_status 200 ?r) s) else s"
  let ?p1 = "if ?start then p\<lparr>responseStarted := True\<rparr> else p"
  have c0: "responseStarted p \<or> (\<not> headersSent (res_status 200 ?r) \<and> \<not> finished (res_status 200 ?r))"
    using edgeInv_clean [OF i p] by auto
  have f0: "finished (res_status 200 ?r) \<longrightarrow> headersSent (res_status 200 ?r)"
    using edgeInv_sent [OF i, of "res p"] by simp
  have i1: "edgeInv ?s1"
    using i edgeInv_setStarted [OF edgeInv_setRes [OF i p f0 c0], of rid] by simp
  have p1: "map_of (pendingRequests ?s1) rid = Some ?p1"
    using p by simp
  have rp: "res ?p1 = res p" by simp
  show ?thesis
  proof (cases "\<not> headersSent (responses ?s1 (res p)) \<or> responseStarted ?p1")
    case False
    then show ?thesis using i1 by (simp add: onChunkFrame_def Let_def)
  next
    case True
    then have st: "responseStarted ?p1" by (auto split: if_splits)
    show ?thesis
    proof (cases "m_data m")
      case None
      with True i1 show ?thesis by (simp add: onChunkFrame_def Let_def)
    next
      case (Some d)
      let ?w = "res_write (dec d) (responses ?s1 (res p))"
      have fw: "finished ?w \<longrightarrow> headersSent ?w"
        by (rule res_write_ok [OF edgeInv_sent [OF i1]])
      from edgeInv_setRes [OF i1 p1 fw] st rp have "edgeInv (setRes (res p) ?w ?s1)"
        by (simp split: if_splits)
      with True Some show ?thesis by (simp add: onChunkFrame_def Let_def)
    qed
  qed
qed

lemma setRes_setRes [simp]: "setRes h r2 (setRes h r1 s) = setRes h r2 s"
  by (simp add: setRes_def)

lemma setRes_same: "setRes h (responses s h) s = s"
  by (simp add: setRes_def)

lemma onEndFrame_inv:
  assumes i: "edgeInv s" and p: "map_of (pendingRequests s) rid = Some p"
  shows "edgeInv (stateOf (onEndFrame rid p s))"
proof -
  let ?r = "responses s (res p)"
  have f: "finished ?r \<longrightarrow> headersSent ?r" by (rule edgeInv_sent [OF i])
  have "\<exists>r. onEndFrame rid p s = Inr (deletePending rid (setRes (res p) r s))
          \<and> (finished r \<longrightarrow> headersSent r)"
  proof (cases "\<not> responseStarted p \<and> \<not> headersSent ?r")
    case True
    then have "onEndFrame rid p s =
        Inr (deletePending rid (setRes (res p) (res_end (res_status 200 ?r)) s))"
      by (simp add: onEndFrame_def Let_def)
    moreover have "finished (res_end (res_status 200 ?r)) \<longrightarrow>
        headersSent (res_end (res_status 200 ?r))"
      using f by (intro res_end_ok) simp
    ultimately show ?thesis by blast
  next
    case False
    show ?thesis
    proof (cases "\<not> headersSent ?r \<or> responseStarted p")
      case True
      with False have "onEndFrame rid p s =
          Inr (deletePending rid (setRes (res p) (res_end ?r) s))"
        by (auto simp: onEndFrame_def Let_def)
      with res_end_ok [OF f] show ?thesis by blast
    next
      case no: False
      with False have "onEndFrame rid p s = Inr (deletePending rid s)"
        by (auto simp: onEndFrame_def Let_def)
      then have "onEndFrame rid p s = Inr (deletePending rid (setRes (res p) ?r s))"
        by (simp add: setRes_same)
      with f show ?thesis by blast
    qed
  qed
  then obtain r where "onEndFrame rid p s = Inr (deletePending rid (setRes (res p) r s))"
    and "finished r \<longrightarrow> headersSent r" by blast
  with edgeInv_setRes_delete [OF i p, of r] show ?thesis by simp
qed

lemma onResponseFrame_inv:
  assumes i: "edgeInv s" and p: "map_of (pendingRequests s) rid = Some p"
  shows "edgeInv (stateOf (onResponseFrame dec rid m p s))"
proof -
  let ?hs = "case m_headers m of None \<Rightarrow> Inr s | Some hs \<Rightarrow> setHeaders (res p) hs s"
  have h: "edgeInv (stateOf ?hs) \<and> pendingRequests (stateOf ?hs) = pendingRequests s"
    using setHeaders_inv [OF i p] i by (cases "m_headers m") simp_all
  show ?thesis
  proof (cases ?hs)
    case (Inl x)
    with h show ?thesis by (simp add: onResponseFrame_def andThen_def)
  next
    case (Inr s1)
    with h have i1: "edgeInv s1" and p1: "map_of (pendingRequests s1) rid = Some p" using p by simp_all
    let ?code = "orDefault (m_status m) 200"
    let ?sa = "setRes (res p) (res_status ?code (responses s1 (res p))) s1"
    let ?s2 = "setStarted rid ?sa"
    let ?q = "p\<lparr>responseStarted := True\<rparr>"
    let ?s3 = "case m_body m of None \<Rightarrow> ?s2
               | Some b \<Rightarrow> if b \<noteq> []
                   then setRes (res p) (res_write (dec b) (responses ?s2 (res p))) ?s2
                   else ?s2"
    have c: "responseStarted p \<or>
        (\<not> headersSent (res_status ?code (responses s1 (res p))) \<and>
         \<not> finished (res_status ?code (responses s1 (res p))))"
      using edgeInv_clean [OF i1 p1] by auto
    have f: "finished (res_status ?code (responses s1 (res p))) \<longrightarrow>
        headersSent (res_status ?code (responses s1 (res p)))"
      using edgeInv_sent [OF i1, of "res p"] by simp
    have i2: "edgeInv ?s2" by (rule edgeInv_setStarted [OF edgeInv_setRes [OF i1 p1 f c]])
    have p2: "map_of (pendingRequests ?s2) rid = Some ?q" using p1 by simp
    have q: "res ?q = res p" "responseStarted ?q" by simp_all
    have w: "edgeInv (setRes (res p) (res_write (dec b) (responses ?s2 (res p))) ?s2)" for b
      using edgeInv_setRes [OF i2 p2 res_write_ok [OF edgeInv_sent [OF i2, of "res p"], of "dec b"]] q
      by simp
    have i3: "edgeInv ?s3" using i2 w by (simp split: option.splits)
    have p3: "map_of (pendingRequests ?s3) rid = Some ?q" using p2 by (simp split: option.splits)
    have e: "edgeInv (deletePending rid (setRes (res p) (res_end (responses ?s3 (res p))) ?s3))"
      using edgeInv_setRes_delete [OF i3 p3 res_end_ok [OF edgeInv_sent [OF i3, of "res p"]]] q by simp
    from Inr i3 e show ?thesis
      by (simp add: onResponseFrame_def andThen_def Let_def)
  qed
qed

lemma tryBlock_inv:
  assumes i: "edgeInv s"
  shows "edgeInv (stateOf (tryBlock dec rid data s))"
proof (cases data)
  case Malformed
  with i show ?thesis by (simp add: tryBlock_def)
next
  case (Frame m)
  show ?thesis
  proof (cases "map_of (pendingRequests s) rid")
    case None
    with Frame i show ?thesis by (simp add: tryBlock_def)
  next
    case (Some p)
    with Frame i onResponseFrame_inv [OF i Some] onChunkFrame_inv [OF i Some]
      onEndFrame_inv [OF i Some]
    show ?thesis by (simp add: tryBlock_def)
  qed
qed

lemma responseHandler_inv:
  assumes i: "edgeInv s" and r: "responseHandler dec rid data s = Inr s'"
  shows "edgeInv s'"
proof (cases "tryBlock dec rid data s")
  case (Inl x)
  obtain e s1 where x: "x = (e, s1)" by (cases x)
  with Inl tryBlock_inv [OF i, of dec rid data] have "edgeInv s1" by simp
  moreover from r Inl x have "catchBlock rid e s1 = Inr s'" by (simp add: responseHandler_def)
  ultimately show ?thesis by (rule catchBlock_inv)
next
  case (Inr s1)
  with r have "s' = s1" by (simp add: responseHandler_def)
  with Inr tryBlock_inv [OF i, of dec rid data] show ?thesis by simp
qed

lemma responseHandler_returns:
  assumes i: "edgeInv s"
  shows "\<exists>s'. responseHandler dec rid data s = Inr s'"
proof (cases "tryBlock dec rid data s")
  case (Inl x)
  obtain e s1 where x: "x = (e, s1)" by (cases x)
  with Inl tryBlock_inv [OF i, of dec rid data] have "edgeInv s1" by simp
  from catchBlock_returns [OF this, of rid e] Inl x show ?thesis
    by (simp add: responseHandler_def)
next
  case (Inr s1)
  then show ?thesis by (simp add: responseHandler_def)
qed

lemma edgeInv_setRes_fresh:
  assumes i: "edgeInv s" and fr: "\<forall>rid p. map_of (pendingRequests s) rid = Some p \<longrightarrow> res p \<noteq> h"
    and f: "finished r \<longrightarrow> headersSent r"
  shows "edgeInv (setRes h r s)"
  using assms
  by (auto simp: edgeInv_def cleanAwaiting_def ownResponse_def sentBeforeFinished_def)

lemma edgeInv_add:
  assumes i: "edgeInv s" and fr: "\<forall>rid p. map_of (pendingRequests s) rid = Some p \<longrightarrow> res p \<noteq> h"
    and u: "\<not> headersSent (responses s h)"
  shows "edgeInv (s\<lparr>pendingRequests :=
      AList.update rid \<lparr>res = h, responseStarted = False\<rparr> (pendingRequests s)\<rparr>)"
proof -
  from i u have nf: "\<not> finished (responses s h)" by (auto simp: edgeInv_def sentBeforeFinished_def)
  show ?thesis
    using i fr u nf
    by (auto simp: edgeInv_def cleanAwaiting_def ownResponse_def sentBeforeFinished_def
        AList.update_conv' split: if_splits)
qed

lemma forwardRequest_inv:
  assumes i: "edgeInv s" and fr: "\<forall>rid p. map_of (pendingRequests s) rid = Some p \<longrightarrow> res p \<noteq> h"
    and r: "forwardRequest req h rid s = Inr s'"
  shows "edgeInv s'"
proof (cases "headersSent (responses s h)")
  case True
  with r i show ?thesis by (simp add: forwardRequest_def)
next
  case False
  show ?thesis
  proof (cases "isActive s")
    case no: False
    with False r have "statusJson h 503 noActiveTunnel s = Inr s'"
      by (simp add: forwardRequest_def)
    from statusJson_Inr [OF this] obtain r' where "s' = setRes h r' s" "headersSent r'" by blast
    with edgeInv_setRes_fresh [OF i fr, of r'] show ?thesis by simp
  next
    case True
    let ?s1 = "s\<lparr>pendingRequests :=
        AList.update rid \<lparr>res = h, responseStarted = False\<rparr> (pendingRequests s)\<rparr>"
    have i1: "edgeInv ?s1" by (rule edgeInv_add [OF i fr False])
    from True obtain t where t: "activeTunnel s = Some t"
      by (auto simp: isActive_def split: option.splits)
    show ?thesis
    proof (cases "ws_send (ws t) (requestMessage rid req) ?s1")
      case (Inr s2)
      with r False True t have "s' = s2" by (simp add: forwardRequest_def Let_def)
      with Inr have "pendingRequests s' = pendingRequests ?s1" "responses s' = responses ?s1"
        using ws_send_frame [of "ws t" "requestMessage rid req" ?s1] by simp_all
      with edgeInv_cong [of s' ?s1] i1 show ?thesis by simp
    next
      case (Inl x)
      obtain e s2 where x: "x = (e, s2)" by (cases x)
      with Inl have s2: "s2 = ?s1" by (auto simp: ws_send_def Let_def split: if_splits)
      from r False True t Inl x s2 have sj: "statusJson h 500
          [(''error'', ''Tunnel communication error''), (''message'', errorMessage e)]
          (deletePending rid ?s1) = Inr s'"
        by (simp add: forwardRequest_def Let_def)
      from statusJson_Inr [OF sj] obtain r' where
        s': "s' = setRes h r' (deletePending rid ?s1)" and "headersSent r'" by blast
      have fr': "\<forall>rida p. map_of (pendingRequests (deletePending rid ?s1)) rida = Some p
          \<longrightarrow> res p \<noteq> h"
        using fr by (auto simp: AList.update_conv' split: if_splits)
      from edgeInv_setRes_fresh [OF edgeInv_delete [OF i1] fr', of r'] s' \<open>headersSent r'\<close>
      show ?thesis by simp
    qed
  qed
qed

lemma statusJson_sent:
  "sentBeforeFinished s \<Longrightarrow> sentBeforeFinished (stateOf (statusJson h code obj s))"
  by (auto simp: statusJson_def res_json_def res_status_def sentBeforeFinished_def Let_def)

lemma rejectAll_sent:
  "sentBeforeFinished s \<Longrightarrow> sentBeforeFinished (stateOf (rejectAll xs s))"
proof (induction xs arbitrary: s)
  case Nil
  then show ?case by simp
next
  case (Cons x xs)
  obtain rid p where x: "x = (rid, p)" by (cases x)
  show ?case
  proof (cases "statusJson (res p) 503 tunnelDisconnected s")
    case (Inl y)
    with statusJson_sent [OF Cons.prems, of "res p" 503 tunnelDisconnected] x
    show ?thesis by (cases y) (simp add: andThen_def)
  next
    case (Inr s1)
    with statusJson_sent [OF Cons.prems, of "res p" 503 tunnelDisconnected]
    have "sentBeforeFinished s1" by simp
    from Cons.IH [OF this] Inr x show ?thesis by (simp add: andThen_def)
  qed
qed

lemma onClose_inv:
  assumes i: "edgeInv s" and r: "onClose w s = Inr s'"
  shows "edgeInv s' \<and> (s' = s \<or> (pendingRequests s' = [] \<and> activeTunnel s' = None))"
proof (cases "activeTunnel s")
  case None
  with r i show ?thesis by (simp add: onClose_def)
next
  case (Some t)
  show ?thesis
  proof (cases "ws t = w")
    case False
    with Some r i show ?thesis by (simp add: onClose_def)
  next
    case True
    let ?s0 = "s\<lparr>activeTunnel := None\<rparr>"
    from Some True r obtain s1 where a: "rejectAll (pendingRequests s) ?s0 = Inr s1"
      and b: "s' = s1\<lparr>pendingRequests := []\<rparr>"
      by (auto simp: onClose_def andThen_def split: sum.splits)
    from i have "sentBeforeFinished ?s0" by (simp add: edgeInv_def sentBeforeFinished_def)
    from rejectAll_sent [OF this, of "pendingRequests s"] a have "sentBeforeFinished s1" by simp
    with b have "edgeInv s'"
      by (simp add: edgeInv_def cleanAwaiting_def ownResponse_def sentBeforeFinished_def)
    moreover have "activeTunnel (stateOf (rejectAll xs u)) = activeTunnel u" for xs u
      by (induction xs arbitrary: u)
         (auto simp: andThen_def statusJson_def res_json_def Let_def split: sum.splits)
    from this [of "pendingRequests s" ?s0] a b have "activeTunnel s' = None" by simp
    ultimately show ?thesis using b by simp
  qed
qed

lemma statusJson_tunnel [simp]:
  "activeTunnel (stateOf (statusJson h code obj s)) = activeTunnel s"
  "pendingRequests (stateOf (statusJson h code obj s)) = pendingRequests s"
  by (simp_all add: statusJson_def res_json_def Let_def)

lemma setHeaders_tunnel [simp]:
  "activeTunnel (stateOf (setHeaders h hs s)) = activeTunnel s"
  by (induction hs arbitrary: s) (auto simp: res_setHeader_def)

lemma deletePending_nil [simp]:
  "pendingRequests s = [] \<Longrightarrow> pendingRequests (deletePending rid s) = []"
  by (simp add: deletePending_def)

lemma catchBlock_tunnel: "activeTunnel (stateOf (catchBlock rid e s)) = activeTunnel s"
proof (cases "map_of (pendingRequests s) rid")
  case None
  then show ?thesis by (simp add: catchBlock_def)
next
  case (Some p)
  show ?thesis
  proof (cases "statusJson (res p) 500
      [(''error'', ''Invalid response from tunnel''), (''message'', errorMessage e)] s")
    case (Inl x)
    with Some statusJson_tunnel(1) [of "res p" 500
      "[(''error'', ''Invalid response from tunnel''), (''message'', errorMessage e)]" s]
    show ?thesis by (cases x) (auto simp: catchBlock_def andThen_def)
  next
    case (Inr s1)
    with Some statusJson_tunnel(1) [of "res p" 500
      "[(''error'', ''Invalid response from tunnel''), (''message'', errorMessage e)]" s]
    show ?thesis by (auto simp: catchBlock_def andThen_def)
  qed
qed

lemma tryBlock_tunnel: "activeTunnel (stateOf (tryBlock dec rid data s)) = activeTunnel s"
proof (cases data)
  case Malformed
  then show ?thesis by (simp add: tryBlock_def)
next
  case (Frame m)
  show ?thesis
  proof (cases "map_of (pendingRequests s) rid")
    case None
    with Frame show ?thesis by (simp add: tryBlock_def)
  next
    case (Some p)
    have a: "activeTunnel (stateOf (onChunkFrame dec rid m p s)) = activeTunnel s"
      by (simp add: onChunkFrame_def Let_def split: option.splits)
    have b: "activeTunnel (stateOf (onEndFrame rid p s)) = activeTunnel s"
      by (simp add: onEndFrame_def Let_def)
    have c: "activeTunnel (stateOf (onResponseFrame dec rid m p s)) = activeTunnel s"
    proof (cases "m_headers m")
      case None
      then show ?thesis
        by (simp add: onResponseFrame_def andThen_def Let_def split: option.splits)
    next
      case (Some hs)
      with setHeaders_tunnel [of "res p" hs s] show ?thesis
        by (cases "setHeaders (res p) hs s")
           (auto simp: onResponseFrame_def andThen_def Let_def split: option.splits)
    qed
    from Frame Some a b c show ?thesis by (simp add: tryBlock_def)
  qed
qed

lemma responseHandler_tunnel:
  "activeTunnel (stateOf (responseHandler dec rid data s)) = activeTunnel s"
proof (cases "tryBlock dec rid data s")
  case (Inl x)
  obtain e s1 where x: "x = (e, s1)" by (cases x)
  with Inl tryBlock_tunnel [of dec rid data s] catchBlock_tunnel [of rid e s1]
  show ?thesis by (simp add: responseHandler_def)
next
  case (Inr s1)
  with tryBlock_tunnel [of dec rid data s] show ?thesis by (simp add: responseHandler_def)
qed

lemma responseHandler_idle:
  "pendingRequests s = [] \<Longrightarrow> responseHandler dec rid data s = Inr s"
  by (cases data) (simp_all add: responseHandler_def tryBlock_def catchBlock_def)

lemma onTimeout_tunnel: "onTimeout rid s = Inr s' \<Longrightarrow> activeTunnel s' = activeTunnel s"
proof (cases "map_of (pendingRequests s) rid")
  case None
  assume "onTimeout rid s = Inr s'"
  with None show ?thesis by (simp add: onTimeout_def)
next
  case (Some p)
  assume r: "onTimeout rid s = Inr s'"
  show ?thesis
  proof (cases "responseStarted p")
    case True
    with r Some show ?thesis
      by (auto simp: onTimeout_def andThen_def dest!: removeListener_Inr)
  next
    case False
    with r Some obtain s1 where a: "statusJson (res p) 504 requestTimeout s = Inr s1"
      and b: "s' = deletePending rid s1"
      by (auto simp: onTimeout_def andThen_def split: sum.splits dest: removeListener_Inr)
    from a statusJson_tunnel(1) [of "res p" 504 requestTimeout s] b show ?thesis by simp
  qed
qed

lemma onReqError_tunnel: "onReqError rid msg s = Inr s' \<Longrightarrow> activeTunnel s' = activeTunnel s"
proof (cases "map_of (pendingRequests s) rid")
  case None
  assume "onReqError rid msg s = Inr s'"
  with None show ?thesis by (simp add: onReqError_def)
next
  case (Some p)
  assume r: "onReqError rid msg s = Inr s'"
  show ?thesis
  proof (cases "responseStarted p")
    case True
    with r Some show ?thesis
      by (auto simp: onReqError_def andThen_def dest!: removeListener_Inr)
  next
    case False
    with r Some obtain s1 where a: "statusJson (res p) 500
        [(''error'', ''Request stream error''), (''message'', msg)] s = Inr s1"
      and b: "s' = deletePending rid s1"
      by (auto simp: onReqError_def andThen_def split: sum.splits dest: removeListener_Inr)
    from a statusJson_tunnel(1) [of "res p" 500
      "[(''error'', ''Request stream error''), (''message'', msg)]" s] b
    show ?thesis by simp
  qed
qed

lemma ws_send_tunnel [simp]: "activeTunnel (stateOf (ws_send h m s)) = activeTunnel s"
  by (simp add: ws_send_def Let_def)

lemma forwardRequest_held:
  assumes "tunnelHeld s" and "forwardRequest req h rid s = Inr s'"
  shows "tunnelHeld s'"
proof (cases "headersSent (responses s h) \<or> \<not> isActive s")
  case True
  show ?thesis
  proof (cases "headersSent (responses s h)")
    case sent: True
    with assms show ?thesis by (simp add: forwardRequest_def)
  next
    case False
    with True assms(2) have "statusJson h 503 noActiveTunnel s = Inr s'"
      by (simp add: forwardRequest_def)
    from statusJson_Inr [OF this] obtain r' where "s' = setRes h r' s" by blast
    with assms(1) show ?thesis by (simp add: tunnelHeld_def)
  qed
next
  case False
  then obtain t where t: "activeTunnel s = Some t"
    by (auto simp: isActive_def split: option.splits)
  let ?s1 = "s\<lparr>pendingRequests :=
      AList.update rid \<lparr>res = h, responseStarted = False\<rparr> (pendingRequests s)\<rparr>"
  show ?thesis
  proof (cases "ws_send (ws t) (requestMessage rid req) ?s1")
    case (Inr s2)
    with assms(2) False t have "s' = s2" by (simp add: forwardRequest_def Let_def)
    with Inr ws_send_tunnel [of "ws t" "requestMessage rid req" ?s1] t
    show ?thesis by (simp add: tunnelHeld_def)
  next
    case (Inl x)
    obtain e s2 where x: "x = (e, s2)" by (cases x)
    with Inl ws_send_tunnel [of "ws t" "requestMessage rid req" ?s1] t
    have a: "activeTunnel s2 = Some t" by simp
    from assms(2) False t Inl x have "statusJson h 500
        [(''error'', ''Tunnel communication error''), (''message'', errorMessage e)]
        (deletePending rid s2) = Inr s'"
      by (simp add: forwardRequest_def Let_def)
    with statusJson_tunnel(1) [of h 500
      "[(''error'', ''Tunnel communication error''), (''message'', errorMessage e)]"
      "deletePending rid s2"] a
    show ?thesis by (simp add: tunnelHeld_def)
  qed
qed

theorem reachable_inv: "reachable enc dec s \<Longrightarrow> edgeInv s \<and> tunnelHeld s"
proof (induction rule: reachable.induct)
  case (start k)
  show ?case
    by (simp add: edgeInv_def cleanAwaiting_def ownResponse_def sentBeforeFinished_def
        tunnelHeld_def newResponse_def)
next
  case (socket s k)
  then show ?case using edgeInv_cong [of "s\<lparr>sockets := k\<rparr>" s] by (simp add: tunnelHeld_def)
next
  case (register s w registration now t s')
  then have "s' = s\<lparr>activeTunnel := Some t\<rparr>"
    by (auto simp: registerTunnel_def Let_def split: option.splits)
  with register.IH edgeInv_cong [of s' s] show ?case by (simp add: tunnelHeld_def)
next
  case (forward s h req requestId s')
  with forwardRequest_inv [of s h req requestId s'] forwardRequest_held [of s req h requestId s']
  show ?case by blast
next
  case (data s requestId chunk)
  have "pendingRequests (onReqData enc requestId chunk s) = pendingRequests s
      \<and> responses (onReqData enc requestId chunk s) = responses s
      \<and> activeTunnel (onReqData enc requestId chunk s) = activeTunnel s"
    by (simp add: onReqData_def split: option.splits)
  with data.IH edgeInv_cong [of "onReqData enc requestId chunk s" s] show ?case
    by (simp add: tunnelHeld_def)
next
  case (ended s requestId)
  have "pendingRequests (onReqEnd requestId s) = pendingRequests s
      \<and> responses (onReqEnd requestId s) = responses s
      \<and> activeTunnel (onReqEnd requestId s) = activeTunnel s"
    by (simp add: onReqEnd_def split: option.splits)
  with ended.IH edgeInv_cong [of "onReqEnd requestId s" s] show ?case
    by (simp add: tunnelHeld_def)
next
  case (error s requestId msg s')
  from error.IH error.hyps(2) have i: "edgeInv s'" by (blast intro: onReqError_inv)
  have "tunnelHeld s'"
  proof (cases "pendingRequests s = []")
    case True
    with error.hyps(2) have "s' = s" by (simp add: onReqError_def)
    with error.IH show ?thesis by simp
  next
    case False
    with error.IH onReqError_tunnel [OF error.hyps(2)] show ?thesis
      by (simp add: tunnelHeld_def)
  qed
  with i show ?case by simp
next
  case (timeout s requestId s')
  from timeout.IH timeout.hyps(2) have i: "edgeInv s'" by (blast intro: onTimeout_inv)
  have "tunnelHeld s'"
  proof (cases "pendingRequests s = []")
    case True
    with timeout.hyps(2) have "s' = s" by (simp add: onTimeout_def)
    with timeout.IH show ?thesis by simp
  next
    case False
    with timeout.IH onTimeout_tunnel [OF timeout.hyps(2)] show ?thesis
      by (simp add: tunnelHeld_def)
  qed
  with i show ?case by simp
next
  case (message s requestId data s')
  from message.IH message.hyps(2) have i: "edgeInv s'" by (blast intro: responseHandler_inv)
  have "tunnelHeld s'"
  proof (cases "pendingRequests s = []")
    case True
    with message.hyps(2) responseHandler_idle [of s dec requestId data] have "s' = s" by simp
    with message.IH show ?thesis by simp
  next
    case False
    with message.IH message.hyps(2) responseHandler_tunnel [of dec requestId data s]
    show ?thesis by (simp add: tunnelHeld_def)
  qed
  with i show ?case by simp
next
  case (close s w s')
  with onClose_inv [of s w s'] show ?case by (auto simp: tunnelHeld_def)
qed

corollary awaiting_head_unsent:
  assumes "reachable enc dec s" and "map_of (pendingRequests s) rid = Some p"
    and "\<not> responseStarted p"
  shows "\<not> headersSent (responses s (res p)) \<and> \<not> finished (responses s (res p))"
  using reachable_inv [OF assms(1)] edgeInv_clean [OF _ assms(2,3)] by blast

corollary timer_returns:
  assumes "reachable enc dec s"
  shows "\<exists>s'. onTimeout rid s = Inr s'"
proof (cases "map_of (pendingRequests s) rid")
  case None
  then show ?thesis by (simp add: onTimeout_def)
next
  case (Some p)
  then have "pendingRequests s \<noteq> []" by auto
  with reachable_inv [OF assms] have t: "activeTunnel s \<noteq> None" by (simp add: tunnelHeld_def)
  show ?thesis
  proof (cases "responseStarted p")
    case True
    with Some t show ?thesis
      by (simp add: onTimeout_def andThen_def removeListener_def)
  next
    case False
    with awaiting_head_unsent [OF assms Some] have "\<not> headersSent (responses s (res p))" by simp
    with Some False t show ?thesis
      by (simp add: onTimeout_def andThen_def removeListener_def statusJson_def res_json_def
          Let_def)
  qed
qed

text \<open>
  The socket's \<open>message\<close> event is a sequence of the steps above, so it leads from a
  reachable state to a reachable state, whether it returns or throws.
\<close>

lemma reachable_ws_send:
  assumes "reachable enc dec s"
  shows "reachable enc dec (stateOf (ws_send h m s))"
proof -
  have "\<exists>k. stateOf (ws_send h m s) = s\<lparr>sockets := k\<rparr>"
  proof (cases "readyState (sockets s h) = 1")
    case True
    then have "stateOf (ws_send h m s) =
        s\<lparr>sockets := (sockets s)(h := sockets s h\<lparr>sent := sent (sockets s h) @ [m]\<rparr>)\<rparr>"
      by (simp add: ws_send_def Let_def)
    then show ?thesis by blast
  next
    case False
    then have "stateOf (ws_send h m s) = s\<lparr>sockets := sockets s\<rparr>"
      by (simp add: ws_send_def Let_def)
    then show ?thesis by blast
  qed
  then obtain k where "stateOf (ws_send h m s) = s\<lparr>sockets := k\<rparr>" by blast
  with reachable.socket [OF assms, of k] show ?thesis by simp
qed

lemma reachable_runHandlers:
  assumes "reachable enc dec s"
  shows "\<exists>s'. runHandlers dec rids data s = Inr s' \<and> reachable enc dec s'"
  using assms
proof (induction rids arbitrary: s)
  case Nil
  then show ?case by simp
next
  case (Cons rid rids)
  from reachable_inv [OF Cons.prems] have "edgeInv s" by simp
  from responseHandler_returns [OF this, of dec rid data] obtain s1 where
    h: "responseHandler dec rid data s = Inr s1" by blast
  from reachable.message [OF Cons.prems h] have "reachable enc dec s1" .
  from Cons.IH [OF this] h show ?case by (simp add: andThen_def)
qed

lemma reachable_emitMessage:
  assumes "reachable enc dec s"
  shows "reachable enc dec (stateOf (emitMessage depth dec now w data s))"
  using assms
proof (induction depth arbitrary: s)
  case 0
  then show ?case by simp
next
  case (Suc depth)
  let ?inner = "case data of
                Malformed \<Rightarrow> Inl (SyntaxError, s)
              | Frame m \<Rightarrow>
                  if m_type m = ''register''
                  then (case registerTunnel w m now s of
                          Inl e \<Rightarrow> Inl (e, s)
                        | Inr (t, s1) \<Rightarrow> ws_send w (registeredFrame t) s1)
                  else if m_type m = ''response'' \<or> m_type m = ''chunk'' \<or> m_type m = ''end''
                    then emitMessage depth dec now w data s
                  else Inr s"
  let ?listener = "case ?inner of
          Inl (e, s1) \<Rightarrow> ws_send w (errorFrame e) s1
        | Inr s1 \<Rightarrow> Inr s1"
  have inner: "reachable enc dec (stateOf ?inner)"
  proof (cases data)
    case Malformed
    with Suc.prems show ?thesis by simp
  next
    case (Frame m)
    show ?thesis
    proof (cases "m_type m = ''register''")
      case True
      show ?thesis
      proof (cases "registerTunnel w m now s")
        case (Inl e)
        with Frame True Suc.prems show ?thesis by simp
      next
        case (Inr x)
        obtain t s1 where x: "x = (t, s1)" by (cases x)
        from reachable.register [OF Suc.prems, of w m now t s1] Inr x
        have "reachable enc dec s1" by simp
        from reachable_ws_send [OF this, of w "registeredFrame t"] Frame True Inr x
        show ?thesis by simp
      qed
    next
      case False
      with Frame Suc.prems Suc.IH [OF Suc.prems] show ?thesis by simp
    qed
  qed
  have listener: "reachable enc dec (stateOf ?listener)"
  proof (cases ?inner)
    case (Inl x)
    obtain e s1 where x: "x = (e, s1)" by (cases x)
    with Inl inner have "reachable enc dec s1" by simp
    from reachable_ws_send [OF this, of w "errorFrame e"] Inl x show ?thesis by simp
  next
    case (Inr s1)
    with inner show ?thesis by simp
  qed
  have "emitMessage (Suc depth) dec now w data s =
      andThen ?listener (runHandlers dec (handlersOf w s) data)"
    by (rule emitMessage.simps(2))
  moreover have "reachable enc dec
      (stateOf (andThen ?listener (runHandlers dec (handlersOf w s) data)))"
  proof (cases ?listener)
    case (Inl x)
    with listener show ?thesis by (cases x) (simp add: andThen_def)
  next
    case (Inr s2)
    with listener have "reachable enc dec s2" by simp
    from reachable_runHandlers [OF this, of "handlersOf w s" data] Inr
    show ?thesis by (auto simp: andThen_def)
  qed
  ultimately show ?case by (simp del: emitMessage.simps)
qed


end
